theory Spec2Isabelle
  imports Main "HOL-Library.Word"
begin

section \<open>The asynchronous output queue of openvdb/io/Queue.cc\<close>

text \<open>
  The queue offloads archive writes. A call of \<open>writeGridVec\<close> draws a task identifier,
  waits in \<open>Impl::enqueue\<close> until the number of tasks in flight is below the capacity (or
  gives up after the timeout), stamps the task \<open>PENDING\<close> and hands it on: to the TBB
  scheduler when the library is built with \<open>OPENVDB_USE_TBB\<close>, to a direct call of
  \<open>execute\<close> otherwise. A finished task calls back into
  \<open>Impl::setStatusWithNotification\<close>, which records the outcome, calls the registered
  notifiers and releases one unit of capacity.

  The embedding is sequential. The fields of \<open>Queue::Impl\<close> are a record; the record also
  carries the part of the environment the code interacts with: the build mode, the tasks
  the scheduler holds and has not yet run, a clock in milliseconds, and a trace of the
  externally visible events in the order they happen. A worker thread finishing a task
  is a step of its own (\<open>worker_run\<close>), taken between two calls of the client or during a
  sleep of the admission loop; the completion handler inside it runs as one block. The
  hand-over to the scheduler and the increment of the counter that follows it are taken
  as one step: no worker runs between the two.

  Archives and notifiers belong to the client. An archive is modelled by what its
  \<open>write\<close> does, return or throw. A notifier is modelled by what it does when it is
  called: return, throw, or ask the queue for its size and return; its call is an event
  of the trace. The queue calls a notifier with no handler around the call, so an
  exception of a notifier leaves the completion handler, \<open>Task::notify\<close> and
  \<open>OutputTask::execute\<close>; on a worker thread it reaches the scheduler, which is not part
  of the sources, and the worker's step keeps the queue as the exception left it. The
  destructor of the queue is not modelled.
\<close>

subsection \<open>Data\<close>

type_synonym Index32 = "32 word"
type_synonym Int32 = "32 word" \<comment> \<open>two's complement, read with \<open>sint\<close>\<close>
type_synonym Id = "32 word"

text \<open>
  Modelled from the spec: the enumeration \<open>Queue::Status\<close> is declared in Queue.h, which is
  not among the sources; section 3 of the specification lists its four values.
\<close>

datatype Status = UNKNOWN | PENDING | SUCCEEDED | FAILED

text \<open>
  What client code (\<open>Archive::write\<close>, a notifier) may throw: an exception derived from
  \<open>std::exception\<close>, whose \<open>what()\<close> is a message or a null pointer, or a value of any
  other type.
\<close>

datatype exn = StdException "string option" | OtherException

text \<open>
  What the queue raises to the client: the \<open>RuntimeError\<close> of \<open>Impl::enqueue\<close>
  (``unable to queue I/O task; N-second time limit expired'', with the timeout N), or an
  exception that leaves \<open>execute\<close> when the task runs inside the submitting call.
\<close>

datatype error = RuntimeError Index32 | Uncaught exn

text \<open>
  Grids and metadata are opaque to the queue. An archive is the behaviour of its
  \<open>write\<close>: it returns or throws. \<open>Archive::copy\<close> yields an archive that behaves alike.
\<close>

type_synonym GridCPtr = nat
type_synonym GridCPtrVec = "GridCPtr list"
type_synonym MetaMap = "(string \<times> string) list"
type_synonym Archive = "GridCPtrVec \<Rightarrow> MetaMap \<Rightarrow> exn + unit"

text \<open>
  Modelled from the spec: the type \<open>Queue::Notifier\<close> is declared in Queue.h, which is not
  among the sources; the specification gives an observer the signature
  \<open>(TaskId, Status) -> ()\<close>, a callback of the client that takes the two values. Like any
  call of client code it may throw instead of returning, and it may call operations of
  the queue (the source warns only against the notifier operations, which deadlock). A
  notifier is a label and what it does when called: return, read \<open>size()\<close> and return,
  or throw.
\<close>

datatype reaction = Returns | ReadsSize | Throws exn

datatype Notifier = Notifier (label: nat) (reacts: reaction)

datatype event =
    Slept \<comment> \<open>the submitting thread slept in the admission loop\<close>
  | SizeRead Index32 \<comment> \<open>a notifier called \<open>size()\<close> and got this value\<close>
  | Dispatched Id \<comment> \<open>the task was handed to the scheduler, or called directly\<close>
  | Wrote Id GridCPtrVec MetaMap \<comment> \<open>the task called \<open>Archive::write\<close>\<close>
  | Logged string \<comment> \<open>\<open>OPENVDB_LOG_ERROR\<close>\<close>
  | Fired Id Status \<comment> \<open>the task called its notification sink\<close>
  | Called Id Notifier Id Status \<comment> \<open>a notifier was called: subscription, callback, task, status\<close>

text \<open>
  \<open>OutputTask\<close>: the identifier and the notifier of \<open>Task\<close>, and the inputs of the write.
  The only notifier a task is ever given is the completion handler of its queue
  (\<open>std::bind(&Impl::setStatusWithNotification, this, _1, _2)\<close> in \<open>Impl::enqueue\<close>), so the
  field records whether it has been set.
\<close>

record OutputTask =
  mId :: Id
  mNotify :: bool
  mGrids :: GridCPtrVec
  mArchive :: Archive
  mMetadata :: MetaMap

record Impl =
  mTimeout :: Index32
  mCapacity :: Index32
  mNumTasks :: Int32
  mNextId :: Index32
  mStatus :: "Id \<rightharpoonup> Status"
  mNotifiers :: "(Id \<times> Notifier) list" \<comment> \<open>a \<open>std::map\<close>: in ascending order of the keys\<close>
  mNextNotifierId :: Index32
  useTBB :: bool \<comment> \<open>built with \<open>OPENVDB_USE_TBB\<close>\<close>
  scheduled :: "OutputTask list" \<comment> \<open>handed to \<open>tbb::task::enqueue\<close>, not yet run\<close>
  clock :: nat \<comment> \<open>\<open>high_resolution_clock::now()\<close>, in milliseconds\<close>
  trace :: "event list"

definition emit :: "event \<Rightarrow> Impl \<Rightarrow> Impl" where
  "emit e q = q\<lparr>trace := trace q @ [e]\<rparr>"

subsection \<open>The notifier map\<close>

text \<open>
  \<open>std::map<Queue::Id, Queue::Notifier>\<close>: \<open>map_assign\<close> is \<open>m[k] = v\<close>, which inserts
  the key at its place in the order or replaces its value; \<open>map_erase\<close> is \<open>m.erase(k)\<close>.
\<close>

fun map_assign :: "Id \<Rightarrow> 'v \<Rightarrow> (Id \<times> 'v) list \<Rightarrow> (Id \<times> 'v) list" where
  "map_assign k v [] = [(k, v)]"
| "map_assign k v ((k', v') # kvs) =
     (if k < k' then (k, v) # (k', v') # kvs
      else if k = k' then (k, v) # kvs
      else (k', v') # map_assign k v kvs)"

definition map_erase :: "Id \<Rightarrow> (Id \<times> 'v) list \<Rightarrow> (Id \<times> 'v) list" where
  "map_erase k kvs = filter (\<lambda>kv. fst kv \<noteq> k) kvs"

subsection \<open>Completion\<close>

definition setStatus :: "Id \<Rightarrow> Status \<Rightarrow> Impl \<Rightarrow> Impl" where
  "setStatus i st q = q\<lparr>mStatus := (mStatus q)(i \<mapsto> st)\<rparr>"

definition Queue_size :: "Impl \<Rightarrow> Index32" where
  "Queue_size q = (if (0::int) < sint (mNumTasks q) then mNumTasks q else 0)"

text \<open>
  The loop over \<open>mNotifiers\<close>, from \<open>begin()\<close> to \<open>end()\<close>: each notifier is called with
  the identifier and the status. The loop ends at the first notifier that throws, and
  the exception leaves it.
\<close>

fun call_all :: "(Id \<times> Notifier) list \<Rightarrow> Id \<Rightarrow> Status \<Rightarrow> Impl \<Rightarrow> (exn + unit) \<times> Impl" where
  "call_all [] i st q = (Inr (), q)"
| "call_all (kn # ns) i st q =
     (let q1 = emit (Called (fst kn) (snd kn) i st) q
      in case reacts (snd kn) of
           Returns \<Rightarrow> call_all ns i st q1
         | ReadsSize \<Rightarrow> call_all ns i st (emit (SizeRead (Queue_size q1)) q1)
         | Throws e \<Rightarrow> (Inl e, q1))"

text \<open>
  \<open>Impl::setStatusWithNotification\<close>. An exception of a notifier leaves the function
  (the lock guard releases the mutex) before the entry is erased and before the counter
  is decremented.
\<close>

definition setStatusWithNotification :: "Id \<Rightarrow> Status \<Rightarrow> Impl \<Rightarrow> (exn + unit) \<times> Impl" where
  "setStatusWithNotification i st q =
     (let completed = (st = SUCCEEDED \<or> st = FAILED);
          q1 = setStatus i st q;
          didNotify = (mNotifiers q1 \<noteq> []);
          (r, q2) = (if didNotify then call_all (mNotifiers q1) i st q1 else (Inr (), q1))
      in case r of
           Inl e \<Rightarrow> (Inl e, q2)
         | Inr _ \<Rightarrow>
             (if completed
              then (let q3 = (if didNotify then q2\<lparr>mStatus := (mStatus q2)(i := None)\<rparr> else q2)
                    in (Inr (), q3\<lparr>mNumTasks := mNumTasks q3 - 1\<rparr>))
              else (Inr (), q2)))"

subsection \<open>Tasks\<close>

text \<open>\<open>Task::notify\<close>: the sink is called if it is set.\<close>

definition notify :: "OutputTask \<Rightarrow> Status \<Rightarrow> Impl \<Rightarrow> (exn + unit) \<times> Impl" where
  "notify t st q =
     (if mNotify t then setStatusWithNotification (mId t) st (emit (Fired (mId t) st) q)
      else (Inr (), q))"

text \<open>
  \<open>OutputTask::execute\<close>. The result is \<open>Inl e\<close> when the exception \<open>e\<close> leaves the
  function and \<open>Inr ()\<close> when it returns (its null successor). The \<open>try\<close> block ends at
  the first exception; the handlers are tried in their order, \<open>catch (std::exception&)\<close>
  before \<open>catch (...)\<close>; an exception that no handler took would leave the function
  before \<open>notify\<close> is reached. The call of \<open>notify\<close> stands after the \<open>try\<close> statement:
  what it throws leaves the function.
\<close>

definition execute :: "OutputTask \<Rightarrow> Impl \<Rightarrow> (exn + unit) \<times> Impl" where
  "execute t q =
     (let status0 = FAILED;
          q0 = emit (Wrote (mId t) (mGrids t) (mMetadata t)) q;
          (thrown, status1, q1) =
            (case mArchive t (mGrids t) (mMetadata t) of
               Inl e \<Rightarrow> (Some e, status0, q0)
             | Inr _ \<Rightarrow> (None, SUCCEEDED, q0));
          (uncaught, q2) =
            (case thrown of
               Some (StdException what) \<Rightarrow>
                 (None, case what of Some msg \<Rightarrow> emit (Logged msg) q1 | None \<Rightarrow> q1)
             | Some OtherException \<Rightarrow> (None, q1)
             | None \<Rightarrow> (None, q1))
      in case uncaught of
           Some e \<Rightarrow> (Inl e, q2)
         | None \<Rightarrow>
             (case notify t status1 q2 of
                (Inl e, q3) \<Rightarrow> (Inl e, q3)
              | (Inr _, q3) \<Rightarrow> (Inr (), q3)))"

text \<open>
  A worker thread of the scheduler takes the task at position \<open>k\<close> and runs it. An
  exception that leaves \<open>execute\<close> goes to the scheduler; the step keeps the queue as
  the run left it.
\<close>

definition worker_run :: "nat \<Rightarrow> Impl \<Rightarrow> Impl" where
  "worker_run k q =
     (if k < length (scheduled q)
      then snd (execute (scheduled q ! k)
                  (q\<lparr>scheduled := take k (scheduled q) @ drop (Suc k) (scheduled q)\<rparr>))
      else q)"

fun run_workers :: "nat list \<Rightarrow> Impl \<Rightarrow> Impl" where
  "run_workers [] q = q"
| "run_workers (k # ks) q = run_workers ks (worker_run k q)"

subsection \<open>Admission\<close>

definition canEnqueue :: "Impl \<Rightarrow> bool" where
  "canEnqueue q = (sint (mNumTasks q) < uint (mCapacity q))"

text \<open>
  One \<open>std::this_thread::sleep_for(std::chrono::milliseconds(500))\<close>. The environment
  decides by how many milliseconds the sleep overruns and which scheduled tasks the
  workers finish meanwhile.
\<close>

type_synonym sleep = "nat \<times> nat list"

definition sleep_for :: "sleep \<Rightarrow> Impl \<Rightarrow> Impl" where
  "sleep_for s q =
     run_workers (snd s) ((emit Slept q)\<lparr>clock := clock q + 500 + fst s\<rparr>)"

definition next_sleep :: "sleep list \<Rightarrow> sleep" where
  "next_sleep sched = (case sched of [] \<Rightarrow> (0, []) | s # _ \<Rightarrow> s)"

text \<open>
  The loop of \<open>Impl::enqueue\<close>: while the queue is full, sleep, then compare the whole
  seconds elapsed since \<open>start\<close> with the timeout.
\<close>

function wait_loop :: "nat \<Rightarrow> sleep list \<Rightarrow> Impl \<Rightarrow> (error + unit) \<times> Impl" where
  "wait_loop start sched q =
     (if canEnqueue q then (Inr (), q)
      else (let q1 = sleep_for (next_sleep sched) q
            in if unat (mTimeout q1) < (clock q1 - start) div 1000
               then (Inl (RuntimeError (mTimeout q1)), q1)
               else wait_loop start (tl sched) q1))"
  by pat_completeness auto

text \<open>
  \<open>Impl::enqueue\<close>. After the loop the task is given its notifier and stamped
  \<open>PENDING\<close>; it is handed to the scheduler or run on the spot; the counter of tasks in
  flight is incremented last.
\<close>

definition enqueue :: "OutputTask \<Rightarrow> sleep list \<Rightarrow> Impl \<Rightarrow> (error + unit) \<times> Impl" where
  "enqueue task sched q =
     (case wait_loop (clock q) sched q of
        (Inl e, q1) \<Rightarrow> (Inl e, q1)
      | (Inr _, q1) \<Rightarrow>
          (let task1 = task\<lparr>mNotify := True\<rparr>;
               q2 = setStatus (mId task1) PENDING q1;
               q3 = emit (Dispatched (mId task1)) q2
           in if useTBB q3
              then (let q4 = q3\<lparr>scheduled := scheduled q3 @ [task1]\<rparr>
                    in (Inr (), q4\<lparr>mNumTasks := mNumTasks q4 + 1\<rparr>))
              else (case execute task1 q3 of
                      (Inl e, q4) \<Rightarrow> (Inl (Uncaught e), q4)
                    | (Inr _, q4) \<Rightarrow> (Inr (), q4\<lparr>mNumTasks := mNumTasks q4 + 1\<rparr>))))"

subsection \<open>The operations of \<open>Queue\<close>\<close>

text \<open>
  \<open>Queue::writeGridVec\<close>. The identifier is drawn before \<open>enqueue\<close> is called; an error
  of \<open>enqueue\<close> is passed on to the client (the TBB build destroys the task first).
\<close>

definition writeGridVec ::
    "GridCPtrVec \<Rightarrow> Archive \<Rightarrow> MetaMap \<Rightarrow> sleep list \<Rightarrow> Impl \<Rightarrow> (error + Id) \<times> Impl" where
  "writeGridVec grids archive metadata sched q =
     (let taskId = mNextId q;
          q0 = q\<lparr>mNextId := mNextId q + 1\<rparr>;
          task = \<lparr>mId = taskId, mNotify = False, mGrids = grids, mArchive = archive,
                  mMetadata = metadata\<rparr>
      in case enqueue task sched q0 of
           (Inl e, q1) \<Rightarrow> (Inl e, q1)
         | (Inr _, q1) \<Rightarrow> (Inr taskId, q1))"

definition writeGrid ::
    "GridCPtr \<Rightarrow> Archive \<Rightarrow> MetaMap \<Rightarrow> sleep list \<Rightarrow> Impl \<Rightarrow> (error + Id) \<times> Impl" where
  "writeGrid grid archive metadata sched q =
     writeGridVec (replicate 1 grid) archive metadata sched q"

definition status :: "Id \<Rightarrow> Impl \<Rightarrow> Status \<times> Impl" where
  "status i q =
     (case mStatus q i of
        Some st \<Rightarrow>
          (st, if st = SUCCEEDED \<or> st = FAILED then q\<lparr>mStatus := (mStatus q)(i := None)\<rparr> else q)
      | None \<Rightarrow> (UNKNOWN, q))"

definition addNotifier :: "Notifier \<Rightarrow> Impl \<Rightarrow> Id \<times> Impl" where
  "addNotifier n q =
     (let i = mNextNotifierId q;
          q1 = q\<lparr>mNextNotifierId := mNextNotifierId q + 1\<rparr>
      in (i, q1\<lparr>mNotifiers := map_assign i n (mNotifiers q1)\<rparr>))"

definition removeNotifier :: "Id \<Rightarrow> Impl \<Rightarrow> Impl" where
  "removeNotifier i q =
     (case map_of (mNotifiers q) i of
        Some _ \<Rightarrow> q\<lparr>mNotifiers := map_erase i (mNotifiers q)\<rparr>
      | None \<Rightarrow> q)"

definition clearNotifiers :: "Impl \<Rightarrow> Impl" where
  "clearNotifiers q = q\<lparr>mNotifiers := []\<rparr>"

text \<open>
  The constructors. \<open>Queue::DEFAULT_TIMEOUT\<close> and \<open>Queue::DEFAULT_CAPACITY\<close> are constants
  of Queue.h, which is not among the sources: they are parameters here.
\<close>

definition Impl_new :: "Index32 \<Rightarrow> Index32 \<Rightarrow> bool \<Rightarrow> Impl" where
  "Impl_new DEFAULT_TIMEOUT DEFAULT_CAPACITY tbb =
     \<lparr>mTimeout = DEFAULT_TIMEOUT, mCapacity = DEFAULT_CAPACITY, mNumTasks = 0, mNextId = 1,
      mStatus = Map.empty, mNotifiers = [], mNextNotifierId = 1,
      useTBB = tbb, scheduled = [], clock = 0, trace = []\<rparr>"

definition Queue :: "Index32 \<Rightarrow> Index32 \<Rightarrow> bool \<Rightarrow> Index32 \<Rightarrow> Impl" where
  "Queue DEFAULT_TIMEOUT DEFAULT_CAPACITY tbb capacity =
     (Impl_new DEFAULT_TIMEOUT DEFAULT_CAPACITY tbb)\<lparr>mCapacity := capacity\<rparr>"

definition Queue_empty :: "Impl \<Rightarrow> bool" where
  "Queue_empty q = (mNumTasks q = 0)"

definition capacity :: "Impl \<Rightarrow> Index32" where
  "capacity q = mCapacity q"

definition setCapacity :: "Index32 \<Rightarrow> Impl \<Rightarrow> Impl" where
  "setCapacity n q = q\<lparr>mCapacity := (if (1::Index32) < n then n else 1)\<rparr>"

definition timeout :: "Impl \<Rightarrow> Index32" where
  "timeout q = mTimeout q"

definition setTimeout :: "Index32 \<Rightarrow> Impl \<Rightarrow> Impl" where
  "setTimeout sec q = q\<lparr>mTimeout := sec\<rparr>"

subsection \<open>Histories\<close>

text \<open>
  What can happen to a queue between its construction and an observation: the calls of
  its client, a worker thread finishing a scheduled task, and time passing.
\<close>

datatype call =
    WriteGridVec GridCPtrVec Archive MetaMap "sleep list"
  | WriteGrid GridCPtr Archive MetaMap "sleep list"
  | GetStatus Id
  | AddNotifier Notifier
  | RemoveNotifier Id
  | ClearNotifiers
  | SetCapacity Index32
  | SetTimeout Index32
  | WorkerRun nat
  | Tick nat

fun step :: "call \<Rightarrow> Impl \<Rightarrow> Impl" where
  "step (WriteGridVec grids archive metadata sched) q =
     snd (writeGridVec grids archive metadata sched q)"
| "step (WriteGrid grid archive metadata sched) q =
     snd (writeGrid grid archive metadata sched q)"
| "step (GetStatus i) q = snd (status i q)"
| "step (AddNotifier n) q = snd (addNotifier n q)"
| "step (RemoveNotifier i) q = removeNotifier i q"
| "step ClearNotifiers q = clearNotifiers q"
| "step (SetCapacity n) q = setCapacity n q"
| "step (SetTimeout sec) q = setTimeout sec q"
| "step (WorkerRun k) q = worker_run k q"
| "step (Tick ms) q = q\<lparr>clock := clock q + ms\<rparr>"

definition run :: "call list \<Rightarrow> Impl \<Rightarrow> Impl" where
  "run cs q = fold step cs q"

subsection \<open>Reading a trace\<close>

text \<open>The events a step or a call appended to the trace of \<open>q\<close> on the way to \<open>q'\<close>.\<close>

definition new_events :: "Impl \<Rightarrow> Impl \<Rightarrow> event list" where
  "new_events q q' = drop (length (trace q)) (trace q')"

text \<open>The trace only grows: \<open>q'\<close> extends the trace of \<open>q\<close>.\<close>

definition grows :: "Impl \<Rightarrow> Impl \<Rightarrow> bool" where
  "grows q q' = (trace q' = trace q @ new_events q q')"

text \<open>
  The reports of the notification sinks, the messages logged and the sizes that
  notifiers read, in order.
\<close>

definition reported :: "event list \<Rightarrow> (Id \<times> Status) list" where
  "reported es = concat (map (\<lambda>e. case e of Fired i st \<Rightarrow> [(i, st)] | _ \<Rightarrow> []) es)"

definition logged :: "event list \<Rightarrow> string list" where
  "logged es = concat (map (\<lambda>e. case e of Logged msg \<Rightarrow> [msg] | _ \<Rightarrow> []) es)"

definition sizes_read :: "event list \<Rightarrow> Index32 list" where
  "sizes_read es = concat (map (\<lambda>e. case e of SizeRead n \<Rightarrow> [n] | _ \<Rightarrow> []) es)"

text \<open>The subscription a call event belongs to, and the call events of a trace.\<close>

definition subscription :: "event \<Rightarrow> Id option" where
  "subscription e = (case e of Called k n i st \<Rightarrow> Some k | _ \<Rightarrow> None)"

definition calls_of :: "Id \<Rightarrow> event list \<Rightarrow> event list" where
  "calls_of k es = filter (\<lambda>e. subscription e = Some k) es"

definition called :: "event list \<Rightarrow> event list" where
  "called es = filter (\<lambda>e. subscription e \<noteq> None) es"

text \<open>Admissions on a trace: the tasks handed on whose identifier satisfies \<open>P\<close>.\<close>

definition dispatched :: "(Id \<Rightarrow> bool) \<Rightarrow> event list \<Rightarrow> nat" where
  "dispatched P es = length (filter (\<lambda>e. case e of Dispatched i \<Rightarrow> P i | _ \<Rightarrow> False) es)"

text \<open>Completions on a trace: the reports of tasks whose identifier satisfies \<open>P\<close>.\<close>

definition fired :: "(Id \<Rightarrow> bool) \<Rightarrow> event list \<Rightarrow> nat" where
  "fired P es = length (filter (\<lambda>r. P (fst r)) (reported es))"

text \<open>Every report on the trace is \<open>SUCCEEDED\<close> or \<open>FAILED\<close>.\<close>

definition terminal_reports :: "event list \<Rightarrow> bool" where
  "terminal_reports es = list_all (\<lambda>r. snd r = SUCCEEDED \<or> snd r = FAILED) (reported es)"

text \<open>
  The tasks admitted and the tasks completed so far: the hand-overs and the reports on
  the trace.
\<close>

definition admitted :: "Impl \<Rightarrow> nat" where
  "admitted q = dispatched (\<lambda>i. True) (trace q)"

definition completed :: "Impl \<Rightarrow> nat" where
  "completed q = fired (\<lambda>i. True) (trace q)"

subsection \<open>What a round of notifier calls does\<close>

text \<open>The exception of the first notifier of the map that throws, if one does.\<close>

fun first_throw :: "(Id \<times> Notifier) list \<Rightarrow> exn option" where
  "first_throw [] = None"
| "first_throw (kn # ns) =
     (case reacts (snd kn) of Throws e \<Rightarrow> Some e | _ \<Rightarrow> first_throw ns)"

text \<open>The notifiers that get called: all up to and including the first that throws.\<close>

fun reached :: "(Id \<times> Notifier) list \<Rightarrow> (Id \<times> Notifier) list" where
  "reached [] = []"
| "reached (kn # ns) =
     kn # (case reacts (snd kn) of Throws e \<Rightarrow> [] | _ \<Rightarrow> reached ns)"

text \<open>The call events of a list of notifiers, for a task and a status.\<close>

definition calls :: "(Id \<times> Notifier) list \<Rightarrow> Id \<Rightarrow> Status \<Rightarrow> event list" where
  "calls ns i st = map (\<lambda>kn. Called (fst kn) (snd kn) i st) ns"

text \<open>
  The events of a round of calls when \<open>size()\<close> stands at \<open>sz\<close>: the calls of the
  notifiers reached, each that reads the size followed by what it got.
\<close>

fun fan_out :: "(Id \<times> Notifier) list \<Rightarrow> Id \<Rightarrow> Status \<Rightarrow> Index32 \<Rightarrow> event list" where
  "fan_out [] i st sz = []"
| "fan_out (kn # ns) i st sz =
     Called (fst kn) (snd kn) i st
       # (case reacts (snd kn) of
            Returns \<Rightarrow> fan_out ns i st sz
          | ReadsSize \<Rightarrow> SizeRead sz # fan_out ns i st sz
          | Throws e \<Rightarrow> [])"

text \<open>No notifier of the queue throws.\<close>

definition calm :: "Impl \<Rightarrow> bool" where
  "calm q = (first_throw (mNotifiers q) = None)"

subsection \<open>The parts of a submission\<close>

text \<open>What the write of a task does: \<open>mArchive->write(mGrids, mMetadata)\<close>.\<close>

definition outcome :: "OutputTask \<Rightarrow> exn + unit" where
  "outcome t = mArchive t (mGrids t) (mMetadata t)"

text \<open>The status a task reports: \<open>SUCCEEDED\<close> if its write returns, \<open>FAILED\<close> if it throws.\<close>

definition result :: "OutputTask \<Rightarrow> Status" where
  "result t = (case outcome t of Inr _ \<Rightarrow> SUCCEEDED | Inl _ \<Rightarrow> FAILED)"

text \<open>What \<open>writeGridVec\<close> does before it calls \<open>enqueue\<close>: the task and the identifier.\<close>

definition task_of :: "GridCPtrVec \<Rightarrow> Archive \<Rightarrow> MetaMap \<Rightarrow> Impl \<Rightarrow> OutputTask" where
  "task_of grids archive metadata q =
     \<lparr>mId = mNextId q, mNotify = False, mGrids = grids, mArchive = archive, mMetadata = metadata\<rparr>"

definition drawn :: "Impl \<Rightarrow> Impl" where
  "drawn q = q\<lparr>mNextId := mNextId q + 1\<rparr>"

text \<open>What \<open>enqueue\<close> does once the loop has let the task through.\<close>

definition dispatch :: "OutputTask \<Rightarrow> Impl \<Rightarrow> (error + unit) \<times> Impl" where
  "dispatch task q1 =
     (let task1 = task\<lparr>mNotify := True\<rparr>;
          q3 = emit (Dispatched (mId task)) (setStatus (mId task) PENDING q1);
          q4 = snd (execute task1 q3)
      in if useTBB q1
         then (Inr (), q3\<lparr>scheduled := scheduled q3 @ [task1], mNumTasks := mNumTasks q3 + 1\<rparr>)
         else (case fst (execute task1 q3) of
                 Inl e \<Rightarrow> (Inl (Uncaught e), q4)
               | Inr _ \<Rightarrow> (Inr (), q4\<lparr>mNumTasks := mNumTasks q4 + 1\<rparr>)))"

text \<open>The keys of a \<open>std::map\<close> are kept in strictly ascending order.\<close>

definition ascending :: "(Id \<times> 'v) list \<Rightarrow> bool" where
  "ascending kvs = sorted_wrt (<) (map fst kvs)"

subsection \<open>Invariants\<close>

text \<open>The scheduled tasks whose identifier satisfies \<open>P\<close>.\<close>

definition waiting :: "(Id \<Rightarrow> bool) \<Rightarrow> Impl \<Rightarrow> nat" where
  "waiting P q = length (filter (\<lambda>t. P (mId t)) (scheduled q))"

text \<open>
  The bookkeeping of tasks between two calls of the client: admissions are completions
  plus scheduled tasks, every scheduled task has its notifier, only the TBB build
  schedules, and every report is terminal.
\<close>

definition accounted :: "(Id \<Rightarrow> bool) \<Rightarrow> Impl \<Rightarrow> bool" where
  "accounted P q =
     (dispatched P (trace q) = fired P (trace q) + waiting P q
      \<and> list_all mNotify (scheduled q)
      \<and> (useTBB q \<or> scheduled q = [])
      \<and> terminal_reports (trace q))"

text \<open>
  The counter is in step with the scheduler: it holds the number of scheduled tasks.
  A notifier that throws on a worker thread breaks this, so the TBB build needs the
  notifiers to be calm.
\<close>

definition steady :: "Impl \<Rightarrow> bool" where
  "steady q =
     (mNumTasks q = of_nat (length (scheduled q)) \<and> (useTBB q \<longrightarrow> calm q))"

text \<open>A notifier that throws, and a history that registers none.\<close>

definition throws :: "Notifier \<Rightarrow> bool" where
  "throws n = (case reacts n of Throws e \<Rightarrow> True | _ \<Rightarrow> False)"

definition quiet :: "call list \<Rightarrow> bool" where
  "quiet cs = list_all (\<lambda>c. case c of AddNotifier n \<Rightarrow> \<not> throws n | _ \<Rightarrow> True) cs"

subsection \<open>Scenarios\<close>

text \<open>Archives for the examples: one whose write returns, one whose write throws.\<close>

definition ok_archive :: Archive where
  "ok_archive = (\<lambda>grids metadata. Inr ())"

definition bad_archive :: Archive where
  "bad_archive = (\<lambda>grids metadata. Inl (StdException (Some ''disk full'')))"

text \<open>Notifiers for the examples: one that throws, one that returns, one that reads the size.\<close>

definition grumpy :: Notifier where
  "grumpy = Notifier 30 (Throws (StdException (Some ''observer failed'')))"

definition polite :: Notifier where
  "polite = Notifier 40 Returns"

definition curious :: Notifier where
  "curious = Notifier 50 ReadsSize"

text \<open>
  A queue of capacity 1 after one submission: built without TBB the task has run and
  its entry is terminal; built with TBB the task waits in the scheduler.
\<close>

definition demo_done :: Impl where
  "demo_done = snd (writeGridVec [7] ok_archive [] [] (Queue 120 100 False 1))"

definition demo_pending :: Impl where
  "demo_pending = snd (writeGridVec [7] ok_archive [] [] (Queue 120 100 True 1))"

text \<open>
  The TBB queue of capacity 1 with its one task in flight, and a timeout of one second
  (\<open>demo_full\<close>) or of zero seconds (\<open>demo_impatient\<close>).
\<close>

definition demo_full :: Impl where
  "demo_full = setTimeout 1 demo_pending"

definition demo_impatient :: Impl where
  "demo_impatient = setTimeout 0 demo_pending"

text \<open>Three subscriptions on a fresh queue: all three notifiers return.\<close>

definition demo_three :: "call list" where
  "demo_three = [AddNotifier polite, AddNotifier curious, AddNotifier (Notifier 60 Returns)]"

text \<open>
  A queue built without TBB whose first notifier throws and whose second returns, and
  a task that has its notifier set.
\<close>

definition demo_rude :: Impl where
  "demo_rude = run [AddNotifier grumpy, AddNotifier polite] (Queue 120 100 False 1)"

definition demo_task :: OutputTask where
  "demo_task = \<lparr>mId = 1, mNotify = True, mGrids = [7], mArchive = ok_archive, mMetadata = []\<rparr>"

text \<open>
  A TBB queue of capacity 2: two submissions, the first task finishes (its write
  throws), a third submission.
\<close>

definition demo_busy :: "call list" where
  "demo_busy =
     [WriteGridVec [7] bad_archive [] [], WriteGridVec [8] ok_archive [] [], WorkerRun 0,
      WriteGrid 9 ok_archive [] []]"

text \<open>
  One subscription, one submission and the run of the task by a worker: with a
  notifier that reads the size, and with one that throws.
\<close>

definition demo_curious :: "call list" where
  "demo_curious = [AddNotifier curious, WriteGridVec [7] ok_archive [] [], WorkerRun 0]"

definition demo_grumpy :: "call list" where
  "demo_grumpy = [AddNotifier grumpy, WriteGridVec [7] ok_archive [] [], WorkerRun 0]"

text \<open>As many submissions as the signed counter cannot hold.\<close>

definition demo_flood :: "call list" where
  "demo_flood = replicate (2 ^ 31) (WriteGridVec [] ok_archive [] [])"

subsection \<open>Registrations\<close>

text \<open>The calls of a history that register a notifier.\<close>

definition registers :: "call \<Rightarrow> bool" where
  "registers c = (case c of AddNotifier n \<Rightarrow> True | _ \<Rightarrow> False)"

section \<open>Basic facts\<close>

text \<open>Completing a task touches the status map, the counter and the trace, nothing else.\<close>

lemma call_all_frame_all:
  "mTimeout (snd (call_all ns i st q)) = mTimeout q
   \<and> mCapacity (snd (call_all ns i st q)) = mCapacity q
   \<and> mNumTasks (snd (call_all ns i st q)) = mNumTasks q
   \<and> mNextId (snd (call_all ns i st q)) = mNextId q
   \<and> mStatus (snd (call_all ns i st q)) = mStatus q
   \<and> mNotifiers (snd (call_all ns i st q)) = mNotifiers q
   \<and> mNextNotifierId (snd (call_all ns i st q)) = mNextNotifierId q
   \<and> useTBB (snd (call_all ns i st q)) = useTBB q
   \<and> scheduled (snd (call_all ns i st q)) = scheduled q
   \<and> clock (snd (call_all ns i st q)) = clock q"
  by (induction ns arbitrary: q) (simp_all add: Let_def emit_def split: reaction.split)

lemma call_all_frame [simp]:
  "mTimeout (snd (call_all ns i st q)) = mTimeout q"
  "mCapacity (snd (call_all ns i st q)) = mCapacity q"
  "mNumTasks (snd (call_all ns i st q)) = mNumTasks q"
  "mNextId (snd (call_all ns i st q)) = mNextId q"
  "mStatus (snd (call_all ns i st q)) = mStatus q"
  "mNotifiers (snd (call_all ns i st q)) = mNotifiers q"
  "mNextNotifierId (snd (call_all ns i st q)) = mNextNotifierId q"
  "useTBB (snd (call_all ns i st q)) = useTBB q"
  "scheduled (snd (call_all ns i st q)) = scheduled q"
  "clock (snd (call_all ns i st q)) = clock q"
  using call_all_frame_all [of ns i st q] by simp_all

lemma setStatusWithNotification_frame [simp]:
  "mTimeout (snd (setStatusWithNotification i st q)) = mTimeout q"
  "mCapacity (snd (setStatusWithNotification i st q)) = mCapacity q"
  "mNextId (snd (setStatusWithNotification i st q)) = mNextId q"
  "mNotifiers (snd (setStatusWithNotification i st q)) = mNotifiers q"
  "mNextNotifierId (snd (setStatusWithNotification i st q)) = mNextNotifierId q"
  "useTBB (snd (setStatusWithNotification i st q)) = useTBB q"
  "scheduled (snd (setStatusWithNotification i st q)) = scheduled q"
  "clock (snd (setStatusWithNotification i st q)) = clock q"
  by (simp_all add: setStatusWithNotification_def setStatus_def Let_def case_prod_beta
      split: sum.split)

lemma notify_frame [simp]:
  "mTimeout (snd (notify t st q)) = mTimeout q"
  "mCapacity (snd (notify t st q)) = mCapacity q"
  "mNextId (snd (notify t st q)) = mNextId q"
  "mNotifiers (snd (notify t st q)) = mNotifiers q"
  "mNextNotifierId (snd (notify t st q)) = mNextNotifierId q"
  "useTBB (snd (notify t st q)) = useTBB q"
  "scheduled (snd (notify t st q)) = scheduled q"
  "clock (snd (notify t st q)) = clock q"
  by (simp_all add: notify_def emit_def)

lemma execute_frame [simp]:
  "mTimeout (snd (execute t q)) = mTimeout q"
  "mCapacity (snd (execute t q)) = mCapacity q"
  "mNextId (snd (execute t q)) = mNextId q"
  "mNotifiers (snd (execute t q)) = mNotifiers q"
  "mNextNotifierId (snd (execute t q)) = mNextNotifierId q"
  "useTBB (snd (execute t q)) = useTBB q"
  "scheduled (snd (execute t q)) = scheduled q"
  "clock (snd (execute t q)) = clock q"
  by (simp_all add: execute_def Let_def emit_def case_prod_beta
      split: sum.split exn.split option.split)

lemma worker_run_frame [simp]:
  "mTimeout (worker_run k q) = mTimeout q"
  "mCapacity (worker_run k q) = mCapacity q"
  "mNextId (worker_run k q) = mNextId q"
  "mNotifiers (worker_run k q) = mNotifiers q"
  "mNextNotifierId (worker_run k q) = mNextNotifierId q"
  "useTBB (worker_run k q) = useTBB q"
  "clock (worker_run k q) = clock q"
  by (simp_all add: worker_run_def)

lemma run_workers_frame [simp]:
  "mTimeout (run_workers ks q) = mTimeout q"
  "mCapacity (run_workers ks q) = mCapacity q"
  "mNextId (run_workers ks q) = mNextId q"
  "mNotifiers (run_workers ks q) = mNotifiers q"
  "mNextNotifierId (run_workers ks q) = mNextNotifierId q"
  "useTBB (run_workers ks q) = useTBB q"
  "clock (run_workers ks q) = clock q"
  by (induction ks arbitrary: q; simp)+

lemma sleep_for_frame [simp]:
  "mTimeout (sleep_for s q) = mTimeout q"
  "mCapacity (sleep_for s q) = mCapacity q"
  "mNextId (sleep_for s q) = mNextId q"
  "mNotifiers (sleep_for s q) = mNotifiers q"
  "mNextNotifierId (sleep_for s q) = mNextNotifierId q"
  "useTBB (sleep_for s q) = useTBB q"
  "clock (sleep_for s q) = clock q + 500 + fst s"
  by (simp_all add: sleep_for_def emit_def)

termination wait_loop
proof (relation "measure (\<lambda>(start, sched, q). (unat (mTimeout q) + 1) * 1000 + start - clock q)")
  show "wf (measure (\<lambda>(start, sched, q). (unat (mTimeout q) + 1) * 1000 + start - clock q))"
    by simp
next
  fix start :: nat and sched :: "sleep list" and q q1 :: Impl
  assume q1: "q1 = sleep_for (next_sleep sched) q"
    and go_on: "\<not> unat (mTimeout q1) < (clock q1 - start) div 1000"
  from go_on have "(clock q1 - start) div 1000 \<le> unat (mTimeout q1)"
    by simp
  then have "clock q1 - start < (unat (mTimeout q1) + 1) * 1000"
    using div_less_iff_less_mult [of 1000 "clock q1 - start" "unat (mTimeout q1) + 1"]
    by simp
  with q1 show "((start, tl sched, q1), (start, sched, q))
      \<in> measure (\<lambda>(start, sched, q). (unat (mTimeout q) + 1) * 1000 + start - clock q)"
    by simp
qed

text \<open>The equation of the loop is applied by hand, one iteration at a time.\<close>

declare wait_loop.simps [simp del]

lemma new_events_app: "trace q' = trace q @ es \<Longrightarrow> new_events q q' = es"
  by (simp add: new_events_def)

lemma Queue_size_emit [simp]: "Queue_size (emit e q) = Queue_size q"
  by (simp add: Queue_size_def emit_def)

lemma call_all_result:
  "fst (call_all ns i st q) = (case first_throw ns of Some e \<Rightarrow> Inl e | None \<Rightarrow> Inr ())"
  by (induction ns arbitrary: q) (simp_all add: Let_def split: reaction.split)

lemma trace_call_all:
  "trace (snd (call_all ns i st q)) = trace q @ fan_out ns i st (Queue_size q)"
  by (induction ns arbitrary: q) (simp_all add: Let_def emit_def Queue_size_def split: reaction.split)

lemma first_throw_Nil_iff: "ns = [] \<Longrightarrow> first_throw ns = None"
  by simp

lemma fst_setStatusWithNotification:
  "fst (setStatusWithNotification i st q) =
     (case first_throw (mNotifiers q) of Some e \<Rightarrow> Inl e | None \<Rightarrow> Inr ())"
  by (simp add: setStatusWithNotification_def setStatus_def Let_def case_prod_beta call_all_result
      split: sum.split option.split)

lemma trace_setStatusWithNotification:
  "trace (snd (setStatusWithNotification i st q)) =
     trace q @ fan_out (mNotifiers q) i st (Queue_size q)"
  by (simp add: setStatusWithNotification_def setStatus_def Let_def case_prod_beta trace_call_all
      Queue_size_def split: sum.split)

lemma mStatus_setStatusWithNotification:
  "mStatus (snd (setStatusWithNotification i st q)) =
     (if (st = SUCCEEDED \<or> st = FAILED) \<and> mNotifiers q \<noteq> [] \<and> first_throw (mNotifiers q) = None
      then (mStatus q)(i := None)
      else (mStatus q)(i \<mapsto> st))"
  by (simp add: setStatusWithNotification_def setStatus_def Let_def case_prod_beta call_all_result
      split: sum.split option.split)

lemma mNumTasks_setStatusWithNotification:
  "mNumTasks (snd (setStatusWithNotification i st q)) =
     (if (st = SUCCEEDED \<or> st = FAILED) \<and> first_throw (mNotifiers q) = None
      then mNumTasks q - 1 else mNumTasks q)"
  by (simp add: setStatusWithNotification_def setStatus_def Let_def case_prod_beta call_all_result
      split: sum.split option.split)

lemma result_terminal: "result t = SUCCEEDED \<or> result t = FAILED"
  by (simp add: result_def split: sum.split)

lemma rethrow_id:
  "(case x of (Inl e, q3) \<Rightarrow> (Inl e, q3) | (Inr u, q3) \<Rightarrow> (Inr (), q3)) = x"
  for x :: "(exn + unit) \<times> Impl"
  by (cases x) (simp split: sum.split)

text \<open>\<open>execute\<close> is the write, the log and then \<open>notify\<close>, whose result is its result.\<close>

lemma execute_eq:
  "execute t q =
     notify t (result t)
       (q\<lparr>trace := trace q @ Wrote (mId t) (mGrids t) (mMetadata t)
           # (case outcome t of Inl (StdException (Some msg)) \<Rightarrow> [Logged msg] | _ \<Rightarrow> [])\<rparr>)"
  by (simp add: execute_def Let_def rethrow_id emit_def result_def outcome_def
      split: sum.split exn.split option.split)

lemma fst_notify:
  "fst (notify t st q) =
     (if mNotify t
      then (case first_throw (mNotifiers q) of Some e \<Rightarrow> Inl e | None \<Rightarrow> Inr ())
      else Inr ())"
  by (simp add: notify_def fst_setStatusWithNotification emit_def)

lemma trace_notify:
  "trace (snd (notify t st q)) =
     trace q @ (if mNotify t
                then Fired (mId t) st # fan_out (mNotifiers q) (mId t) st (Queue_size q)
                else [])"
  by (simp add: notify_def trace_setStatusWithNotification emit_def Queue_size_def)

lemma mNumTasks_notify:
  "mNumTasks (snd (notify t st q)) =
     (if mNotify t \<and> (st = SUCCEEDED \<or> st = FAILED) \<and> first_throw (mNotifiers q) = None
      then mNumTasks q - 1 else mNumTasks q)"
  by (simp add: notify_def mNumTasks_setStatusWithNotification emit_def)

lemma mStatus_notify:
  "mStatus (snd (notify t st q)) =
     (if mNotify t
      then (if (st = SUCCEEDED \<or> st = FAILED) \<and> mNotifiers q \<noteq> []
               \<and> first_throw (mNotifiers q) = None
            then (mStatus q)((mId t) := None)
            else (mStatus q)(mId t \<mapsto> st))
      else mStatus q)"
  by (simp add: notify_def mStatus_setStatusWithNotification emit_def)

lemma fst_execute:
  "fst (execute t q) =
     (if mNotify t
      then (case first_throw (mNotifiers q) of Some e \<Rightarrow> Inl e | None \<Rightarrow> Inr ())
      else Inr ())"
  by (simp add: execute_eq fst_notify)

lemma trace_execute:
  "trace (snd (execute t q)) =
     trace q @ Wrote (mId t) (mGrids t) (mMetadata t)
       # (case outcome t of Inl (StdException (Some msg)) \<Rightarrow> [Logged msg] | _ \<Rightarrow> [])
       @ (if mNotify t
          then Fired (mId t) (result t)
                 # fan_out (mNotifiers q) (mId t) (result t) (Queue_size q)
          else [])"
  by (simp add: execute_eq trace_notify Queue_size_def)

lemma mNumTasks_execute:
  "mNumTasks (snd (execute t q)) =
     (if mNotify t \<and> first_throw (mNotifiers q) = None then mNumTasks q - 1 else mNumTasks q)"
  using result_terminal [of t] by (simp add: execute_eq mNumTasks_notify)

lemma mStatus_execute:
  "mStatus (snd (execute t q)) =
     (if mNotify t
      then (if mNotifiers q \<noteq> [] \<and> first_throw (mNotifiers q) = None
            then (mStatus q)((mId t) := None)
            else (mStatus q)(mId t \<mapsto> result t))
      else mStatus q)"
  using result_terminal [of t] by (simp add: execute_eq mStatus_notify)

lemma reported_simps [simp]:
  "reported [] = []"
  "reported (Fired i st # es) = (i, st) # reported es"
  "reported (Wrote i gs md # es) = reported es"
  "reported (Logged msg # es) = reported es"
  "reported (Slept # es) = reported es"
  "reported (SizeRead sz # es) = reported es"
  "reported (Dispatched i # es) = reported es"
  "reported (Called k n i st # es) = reported es"
  "reported (es @ es') = reported es @ reported es'"
  by (simp_all add: reported_def)

lemma logged_simps [simp]:
  "logged [] = []"
  "logged (Fired i st # es) = logged es"
  "logged (Wrote i gs md # es) = logged es"
  "logged (Logged msg # es) = msg # logged es"
  "logged (Slept # es) = logged es"
  "logged (SizeRead sz # es) = logged es"
  "logged (Dispatched i # es) = logged es"
  "logged (Called k n i st # es) = logged es"
  "logged (es @ es') = logged es @ logged es'"
  by (simp_all add: logged_def)

lemma sizes_read_simps [simp]:
  "sizes_read [] = []"
  "sizes_read (Fired i st # es) = sizes_read es"
  "sizes_read (Wrote i gs md # es) = sizes_read es"
  "sizes_read (Logged msg # es) = sizes_read es"
  "sizes_read (Slept # es) = sizes_read es"
  "sizes_read (SizeRead sz # es) = sz # sizes_read es"
  "sizes_read (Dispatched i # es) = sizes_read es"
  "sizes_read (Called k n i st # es) = sizes_read es"
  "sizes_read (es @ es') = sizes_read es @ sizes_read es'"
  by (simp_all add: sizes_read_def)

lemma called_simps [simp]:
  "called [] = []"
  "called (Fired i st # es) = called es"
  "called (Wrote i gs md # es) = called es"
  "called (Logged msg # es) = called es"
  "called (Slept # es) = called es"
  "called (SizeRead sz # es) = called es"
  "called (Dispatched i # es) = called es"
  "called (Called k n i st # es) = Called k n i st # called es"
  "called (es @ es') = called es @ called es'"
  by (simp_all add: called_def subscription_def)

lemma dispatched_simps [simp]:
  "dispatched P [] = 0"
  "dispatched P (Dispatched i # es) = (if P i then 1 else 0) + dispatched P es"
  "dispatched P (Slept # es) = dispatched P es"
  "dispatched P (SizeRead sz # es) = dispatched P es"
  "dispatched P (Wrote i gs md # es) = dispatched P es"
  "dispatched P (Logged msg # es) = dispatched P es"
  "dispatched P (Fired i st # es) = dispatched P es"
  "dispatched P (Called k n i st # es) = dispatched P es"
  "dispatched P (es @ es') = dispatched P es + dispatched P es'"
  by (simp_all add: dispatched_def)

lemma fired_simps [simp]:
  "fired P [] = 0"
  "fired P (Fired i st # es) = (if P i then 1 else 0) + fired P es"
  "fired P (Slept # es) = fired P es"
  "fired P (SizeRead sz # es) = fired P es"
  "fired P (Wrote i gs md # es) = fired P es"
  "fired P (Logged msg # es) = fired P es"
  "fired P (Dispatched i # es) = fired P es"
  "fired P (Called k n i st # es) = fired P es"
  "fired P (es @ es') = fired P es + fired P es'"
  by (simp_all add: fired_def)

lemma terminal_reports_simps [simp]:
  "terminal_reports []"
  "terminal_reports (es @ es') = (terminal_reports es \<and> terminal_reports es')"
  "terminal_reports (Fired i st # es) = ((st = SUCCEEDED \<or> st = FAILED) \<and> terminal_reports es)"
  "terminal_reports (Slept # es) = terminal_reports es"
  "terminal_reports (SizeRead sz # es) = terminal_reports es"
  "terminal_reports (Wrote i gs md # es) = terminal_reports es"
  "terminal_reports (Logged msg # es) = terminal_reports es"
  "terminal_reports (Dispatched i # es) = terminal_reports es"
  "terminal_reports (Called k n i st # es) = terminal_reports es"
  by (simp_all add: terminal_reports_def)

text \<open>A round of calls holds calls and sizes read, nothing else.\<close>

lemma fan_out_plain [simp]:
  "reported (fan_out ns i st sz) = []"
  "logged (fan_out ns i st sz) = []"
  "dispatched P (fan_out ns i st sz) = 0"
  "fired P (fan_out ns i st sz) = 0"
  "terminal_reports (fan_out ns i st sz)"
  by (induction ns; simp split: reaction.split)+

lemma called_fan_out: "called (fan_out ns i st sz) = calls (reached ns) i st"
  by (induction ns) (simp_all add: calls_def split: reaction.split)

lemma sizes_read_fan_out: "set (sizes_read (fan_out ns i st sz)) \<subseteq> {sz}"
  by (induction ns) (auto split: reaction.splits)

lemma reached_calm: "first_throw ns = None \<Longrightarrow> reached ns = ns"
  by (induction ns) (simp_all split: reaction.splits)

lemma reached_set: "set (reached ns) \<subseteq> set ns"
  by (induction ns) (auto split: reaction.splits)

subsection \<open>The admission loop\<close>

lemma wait_loop_admit [simp]: "canEnqueue q \<Longrightarrow> wait_loop start sched q = (Inr (), q)"
  by (subst wait_loop.simps) simp

lemma wait_loop_full:
  "\<not> canEnqueue q \<Longrightarrow>
   wait_loop start sched q =
     (let q1 = sleep_for (next_sleep sched) q
      in if unat (mTimeout q1) < (clock q1 - start) div 1000
         then (Inl (RuntimeError (mTimeout q1)), q1)
         else wait_loop start (tl sched) q1)"
  by (subst wait_loop.simps) simp

lemma wait_loop_frame_all:
  "mTimeout (snd (wait_loop start sched q)) = mTimeout q
   \<and> mCapacity (snd (wait_loop start sched q)) = mCapacity q
   \<and> mNextId (snd (wait_loop start sched q)) = mNextId q
   \<and> mNotifiers (snd (wait_loop start sched q)) = mNotifiers q
   \<and> mNextNotifierId (snd (wait_loop start sched q)) = mNextNotifierId q
   \<and> useTBB (snd (wait_loop start sched q)) = useTBB q"
proof (induction start sched q rule: wait_loop.induct)
  case (1 start sched q)
  show ?case
  proof (cases "canEnqueue q")
    case True
    then show ?thesis by simp
  next
    case False
    with 1 show ?thesis
      by (simp add: wait_loop_full Let_def)
  qed
qed

lemma wait_loop_frame [simp]:
  "mTimeout (snd (wait_loop start sched q)) = mTimeout q"
  "mCapacity (snd (wait_loop start sched q)) = mCapacity q"
  "mNextId (snd (wait_loop start sched q)) = mNextId q"
  "mNotifiers (snd (wait_loop start sched q)) = mNotifiers q"
  "mNextNotifierId (snd (wait_loop start sched q)) = mNextNotifierId q"
  "useTBB (snd (wait_loop start sched q)) = useTBB q"
  using wait_loop_frame_all [of start sched q] by simp_all

lemma wait_loop_Inr: "fst (wait_loop start sched q) = Inr u \<Longrightarrow> canEnqueue (snd (wait_loop start sched q))"
proof (induction start sched q rule: wait_loop.induct)
  case (1 start sched q)
  show ?case
  proof (cases "canEnqueue q")
    case True then show ?thesis by simp
  next
    case False
    with 1 show ?thesis
      by (simp add: wait_loop_full Let_def split: if_splits)
  qed
qed

lemma wait_loop_Inl: "fst (wait_loop start sched q) = Inl e \<Longrightarrow> e = RuntimeError (mTimeout q)"
proof (induction start sched q rule: wait_loop.induct)
  case (1 start sched q)
  show ?case
  proof (cases "canEnqueue q")
    case True with 1 show ?thesis by simp
  next
    case False
    with 1 show ?thesis
      by (simp add: wait_loop_full Let_def split: if_splits)
  qed
qed

subsection \<open>Submission\<close>

lemma enqueue_eq:
  "enqueue task sched q =
     (case fst (wait_loop (clock q) sched q) of
        Inl e \<Rightarrow> (Inl e, snd (wait_loop (clock q) sched q))
      | Inr _ \<Rightarrow> dispatch task (snd (wait_loop (clock q) sched q)))"
  by (cases "wait_loop (clock q) sched q";
      cases "execute (task\<lparr>mNotify := True\<rparr>)
        (emit (Dispatched (mId task)) (setStatus (mId task) PENDING (snd (wait_loop (clock q) sched q))))")
     (simp add: enqueue_def dispatch_def Let_def emit_def setStatus_def split: sum.split)

lemma writeGridVec_eq:
  "writeGridVec grids archive metadata sched q =
     (case fst (wait_loop (clock q) sched (drawn q)) of
        Inl e \<Rightarrow> (Inl e, snd (wait_loop (clock q) sched (drawn q)))
      | Inr _ \<Rightarrow>
          (case fst (dispatch (task_of grids archive metadata q)
                       (snd (wait_loop (clock q) sched (drawn q)))) of
             Inl e \<Rightarrow> Inl e
           | Inr _ \<Rightarrow> Inr (mNextId q),
           snd (dispatch (task_of grids archive metadata q)
                  (snd (wait_loop (clock q) sched (drawn q))))))"
  by (cases "dispatch (task_of grids archive metadata q) (snd (wait_loop (clock q) sched (drawn q)))")
     (simp add: writeGridVec_def enqueue_eq Let_def task_of_def drawn_def split: sum.split)

lemma writeGridVec_admit:
  "canEnqueue q \<Longrightarrow>
   writeGridVec grids archive metadata sched q =
     (case fst (dispatch (task_of grids archive metadata q) (drawn q)) of
        Inl e \<Rightarrow> Inl e
      | Inr _ \<Rightarrow> Inr (mNextId q),
      snd (dispatch (task_of grids archive metadata q) (drawn q)))"
  by (simp add: writeGridVec_eq canEnqueue_def drawn_def)

lemma fst_dispatch:
  "fst (dispatch t q) =
     (if useTBB q then Inr ()
      else (case first_throw (mNotifiers q) of Some e \<Rightarrow> Inl (Uncaught e) | None \<Rightarrow> Inr ()))"
  by (simp add: dispatch_def Let_def fst_execute emit_def setStatus_def
      split: sum.split option.split)

lemma dispatch_frame [simp]:
  "mTimeout (snd (dispatch t q)) = mTimeout q"
  "mCapacity (snd (dispatch t q)) = mCapacity q"
  "mNextId (snd (dispatch t q)) = mNextId q"
  "mNotifiers (snd (dispatch t q)) = mNotifiers q"
  "mNextNotifierId (snd (dispatch t q)) = mNextNotifierId q"
  "useTBB (snd (dispatch t q)) = useTBB q"
  "clock (snd (dispatch t q)) = clock q"
  by (simp_all add: dispatch_def Let_def emit_def setStatus_def split: sum.split)

lemma writeGridVec_frame [simp]:
  "mTimeout (snd (writeGridVec grids archive metadata sched q)) = mTimeout q"
  "mCapacity (snd (writeGridVec grids archive metadata sched q)) = mCapacity q"
  "mNextId (snd (writeGridVec grids archive metadata sched q)) = mNextId q + 1"
  "mNotifiers (snd (writeGridVec grids archive metadata sched q)) = mNotifiers q"
  "mNextNotifierId (snd (writeGridVec grids archive metadata sched q)) = mNextNotifierId q"
  "useTBB (snd (writeGridVec grids archive metadata sched q)) = useTBB q"
  by (simp_all add: writeGridVec_eq drawn_def split: sum.split)

text \<open>
  The result of a submission: the error of the loop, or the exception of a notifier
  when the task ran on the spot, or the identifier.
\<close>

lemma fst_writeGridVec:
  "fst (writeGridVec grids archive metadata sched q) =
     (case fst (wait_loop (clock q) sched (drawn q)) of
        Inl e \<Rightarrow> Inl e
      | Inr _ \<Rightarrow>
          (if useTBB q then Inr (mNextId q)
           else (case first_throw (mNotifiers q) of
                   Some e \<Rightarrow> Inl (Uncaught e)
                 | None \<Rightarrow> Inr (mNextId q))))"
  by (simp add: writeGridVec_eq fst_dispatch drawn_def split: sum.split option.split)

lemma writeGridVec_RuntimeError:
  "fst (writeGridVec grids archive metadata sched q) = Inl (RuntimeError n) \<Longrightarrow>
   n = mTimeout q \<and> fst (wait_loop (clock q) sched (drawn q)) = Inl (RuntimeError n)"
  using wait_loop_Inl [of "clock q" sched "drawn q"]
  by (auto simp add: fst_writeGridVec drawn_def split: sum.splits if_splits option.splits)

lemma Queue_facts:
  "mNotifiers (Queue dt dc tbb n) = []" "mStatus (Queue dt dc tbb n) = Map.empty"
  "trace (Queue dt dc tbb n) = []" "mNumTasks (Queue dt dc tbb n) = 0"
  "scheduled (Queue dt dc tbb n) = []" "mCapacity (Queue dt dc tbb n) = n"
  "mTimeout (Queue dt dc tbb n) = dt" "mNextId (Queue dt dc tbb n) = 1"
  "mNextNotifierId (Queue dt dc tbb n) = 1" "useTBB (Queue dt dc tbb n) = tbb"
  "clock (Queue dt dc tbb n) = 0"
  by (simp_all add: Queue_def Impl_new_def)

lemma run_Nil [simp]: "run [] q = q"
  by (simp add: run_def)

lemma run_Cons [simp]: "run (c # cs) q = run cs (step c q)"
  by (simp add: run_def)

lemma run_append [simp]: "run (cs @ cs') q = run cs' (run cs q)"
  by (simp add: run_def)

section \<open>Traces\<close>

lemma growsI: "trace q' = trace q @ es \<Longrightarrow> grows q q'"
  by (simp add: grows_def new_events_def)

lemma grows_refl [simp]: "grows q q"
  by (simp add: grows_def new_events_def)

lemma grows_trans: "grows q q1 \<Longrightarrow> grows q1 q2 \<Longrightarrow> grows q q2"
  by (metis append.assoc grows_def growsI)

lemma new_events_trans:
  "grows q q1 \<Longrightarrow> grows q1 q2 \<Longrightarrow> new_events q q2 = new_events q q1 @ new_events q1 q2"
  by (metis append.assoc grows_def new_events_app)

lemma grows_execute: "grows q (snd (execute t q))"
  by (rule growsI) (rule trace_execute)

lemma grows_worker_run: "grows q (worker_run k q)"
proof (cases "k < length (scheduled q)")
  case True
  have "grows (q\<lparr>scheduled := take k (scheduled q) @ drop (Suc k) (scheduled q)\<rparr>) (worker_run k q)"
    using True by (simp add: worker_run_def grows_execute)
  then show ?thesis by (simp add: grows_def new_events_def)
next
  case False
  then show ?thesis by (simp add: worker_run_def)
qed

lemma grows_run_workers: "grows q (run_workers ks q)"
proof (induction ks arbitrary: q)
  case Nil
  show ?case by simp
next
  case (Cons k ks)
  from grows_worker_run [of q k] Cons [of "worker_run k q"] show ?case
    by (simp add: grows_trans)
qed

lemma sleep_for_events:
  "new_events q (sleep_for s q) = Slept # new_events ((emit Slept q)\<lparr>clock := clock q + 500 + fst s\<rparr>) (sleep_for s q)"
proof -
  let ?q0 = "(emit Slept q)\<lparr>clock := clock q + 500 + fst s\<rparr>"
  have a: "grows q ?q0" by (rule growsI [of _ _ "[Slept]"]) (simp add: emit_def)
  have b: "grows ?q0 (sleep_for s q)" by (simp add: sleep_for_def grows_run_workers)
  have "new_events q ?q0 = [Slept]" by (simp add: new_events_def emit_def)
  with new_events_trans [OF a b] show ?thesis by simp
qed

lemma grows_sleep_for: "grows q (sleep_for s q)"
proof -
  let ?q0 = "(emit Slept q)\<lparr>clock := clock q + 500 + fst s\<rparr>"
  have a: "grows q ?q0" by (rule growsI [of _ _ "[Slept]"]) (simp add: emit_def)
  have b: "grows ?q0 (sleep_for s q)" by (simp add: sleep_for_def grows_run_workers)
  from a b show ?thesis by (rule grows_trans)
qed

lemma grows_wait_loop: "grows q (snd (wait_loop start sched q))"
proof (induction start sched q rule: wait_loop.induct)
  case (1 start sched q)
  show ?case
  proof (cases "canEnqueue q")
    case True
    then show ?thesis by simp
  next
    case False
    with 1 grows_sleep_for [of q "next_sleep sched"] show ?thesis
      by (auto simp add: wait_loop_full Let_def intro: grows_trans)
  qed
qed

lemma wait_loop_sleeps_first:
  assumes "\<not> canEnqueue q"
  shows "\<exists>es. new_events q (snd (wait_loop start sched q)) = Slept # es"
proof -
  let ?q1 = "sleep_for (next_sleep sched) q"
  have a: "grows q ?q1" by (rule grows_sleep_for)
  have "\<exists>q2. snd (wait_loop start sched q) = q2 \<and> grows ?q1 q2"
    using assms grows_wait_loop [of ?q1 start "tl sched"]
    by (simp add: wait_loop_full Let_def)
  then obtain q2 where q2: "snd (wait_loop start sched q) = q2" and b: "grows ?q1 q2"
    by blast
  from new_events_trans [OF a b] sleep_for_events [of q "next_sleep sched"] q2
  show ?thesis by simp
qed

lemma clock_wait_loop: "clock q \<le> clock (snd (wait_loop start sched q))"
proof (induction start sched q rule: wait_loop.induct)
  case (1 start sched q)
  show ?case
  proof (cases "canEnqueue q")
    case True
    then show ?thesis by simp
  next
    case False
    with 1 show ?thesis
      by (auto simp add: wait_loop_full Let_def)
  qed
qed

lemma wait_loop_expired:
  "fst (wait_loop start sched q) = Inl e \<Longrightarrow>
   unat (mTimeout q) < (clock (snd (wait_loop start sched q)) - start) div 1000"
proof (induction start sched q rule: wait_loop.induct)
  case (1 start sched q)
  show ?case
  proof (cases "canEnqueue q")
    case True
    with 1 show ?thesis by simp
  next
    case False
    with 1 show ?thesis
      by (simp add: wait_loop_full Let_def split: if_splits)
  qed
qed

section \<open>Polling\<close>

lemma status_frame [simp]:
  "mTimeout (snd (status i q)) = mTimeout q"
  "mCapacity (snd (status i q)) = mCapacity q"
  "mNumTasks (snd (status i q)) = mNumTasks q"
  "mNextId (snd (status i q)) = mNextId q"
  "mNotifiers (snd (status i q)) = mNotifiers q"
  "mNextNotifierId (snd (status i q)) = mNextNotifierId q"
  "useTBB (snd (status i q)) = useTBB q"
  "scheduled (snd (status i q)) = scheduled q"
  "clock (snd (status i q)) = clock q"
  "trace (snd (status i q)) = trace q"
  by (simp_all add: status_def split: option.split)

lemma status_absent: "mStatus q i = None \<Longrightarrow> status i q = (UNKNOWN, q)"
  by (simp add: status_def)

lemma mStatus_status_absent: "mStatus q i = None \<Longrightarrow> mStatus (snd (status j q)) i = None"
  by (simp add: status_def split: option.split)

lemma polls_absent:
  "mStatus q i = None \<Longrightarrow> mStatus (run (map GetStatus js) q) i = None"
  by (induction js arbitrary: q) (simp_all add: run_def mStatus_status_absent)

section \<open>The notifier map\<close>

lemma keys_map_assign: "fst ` set (map_assign k v kvs) = insert k (fst ` set kvs)"
  by (induction kvs) force+

lemma ascending_map_assign: "ascending kvs \<Longrightarrow> ascending (map_assign k v kvs)"
proof (induction kvs)
  case Nil
  then show ?case by (simp add: ascending_def)
next
  case (Cons kv kvs)
  obtain k' v' where kv: "kv = (k', v')" by (cases kv)
  from Cons.prems have tl: "ascending kvs" and hd: "\<forall>x \<in> set kvs. k' < fst x"
    by (simp_all add: ascending_def kv)
  show ?case
  proof (cases "k < k'")
    case True
    with Cons.prems hd show ?thesis
      by (auto simp add: ascending_def kv)
  next
    case False
    show ?thesis
    proof (cases "k = k'")
      case True
      with Cons.prems show ?thesis by (simp add: ascending_def kv)
    next
      case neq: False
      with False have lt: "k' < k" by simp
      have "\<forall>x \<in> set (map_assign k v kvs). k' < fst x"
        using hd lt keys_map_assign [of k v kvs] by force
      with Cons.IH [OF tl] False neq show ?thesis
        by (simp add: ascending_def kv)
    qed
  qed
qed

lemma ascending_map_erase: "ascending kvs \<Longrightarrow> ascending (map_erase k kvs)"
  by (induction kvs) (auto simp add: ascending_def map_erase_def)

lemma keys_map_erase: "k \<notin> fst ` set (map_erase k kvs)"
  by (auto simp add: map_erase_def)

lemma map_of_None_keys: "map_of kvs k = None \<Longrightarrow> k \<notin> fst ` set kvs"
  by (simp add: map_of_eq_None_iff)

lemma removeNotifier_keys: "k \<notin> fst ` set (mNotifiers (removeNotifier k q))"
  by (auto simp add: removeNotifier_def keys_map_erase map_of_eq_None_iff split: option.split)

lemma ascending_step: "ascending (mNotifiers q) \<Longrightarrow> ascending (mNotifiers (step c q))"
  by (cases c)
     (simp_all add: writeGrid_def addNotifier_def Let_def ascending_map_assign removeNotifier_def
        ascending_map_erase clearNotifiers_def setCapacity_def setTimeout_def ascending_def [of "[]"]
        split: option.split)

lemma ascending_run: "ascending (mNotifiers q) \<Longrightarrow> ascending (mNotifiers (run cs q))"
  by (induction cs arbitrary: q) (simp_all add: ascending_step)

lemma ascending_history: "ascending (mNotifiers (run cs (Queue dt dc tbb n)))"
  by (rule ascending_run) (simp add: Queue_facts ascending_def)

lemma ascending_filter_key:
  "ascending ns \<Longrightarrow> (k, n) \<in> set ns \<Longrightarrow> filter (\<lambda>kv. fst kv = k) ns = [(k, n)]"
proof (induction ns)
  case Nil
  then show ?case by simp
next
  case (Cons kv ns)
  from Cons.prems(1) have tl: "ascending ns" and hd: "\<forall>x \<in> set ns. fst kv < fst x"
    by (simp_all add: ascending_def)
  show ?case
  proof (cases "kv = (k, n)")
    case True
    with hd have "filter (\<lambda>kv. fst kv = k) ns = []"
      by (auto simp add: filter_empty_conv)
    with True show ?thesis by simp
  next
    case False
    with Cons.prems(2) have mem: "(k, n) \<in> set ns" by simp
    with hd have "fst kv \<noteq> k" by force
    with Cons.IH [OF tl mem] show ?thesis by simp
  qed
qed

lemma absent_filter_key: "k \<notin> fst ` set ns \<Longrightarrow> filter (\<lambda>kv. fst kv = k) ns = []"
  by (auto simp add: filter_empty_conv)

section \<open>Bookkeeping\<close>

lemma first_throw_None_iff: "first_throw ns = None \<longleftrightarrow> (\<forall>kn \<in> set ns. \<not> throws (snd kn))"
  by (induction ns) (auto simp add: throws_def split: reaction.splits)

lemma set_map_assign: "set (map_assign k v kvs) \<subseteq> insert (k, v) (set kvs)"
  by (induction kvs) (auto split: if_splits)

lemma calm_addNotifier: "calm q \<Longrightarrow> \<not> throws n \<Longrightarrow> calm (snd (addNotifier n q))"
  using set_map_assign [of "mNextNotifierId q" n "mNotifiers q"]
  by (auto simp add: calm_def first_throw_None_iff addNotifier_def Let_def)

lemma calm_removeNotifier: "calm q \<Longrightarrow> calm (removeNotifier k q)"
  by (auto simp add: calm_def first_throw_None_iff removeNotifier_def map_erase_def
      split: option.split)

lemma calm_cong: "mNotifiers q' = mNotifiers q \<Longrightarrow> calm q' = calm q"
  by (simp add: calm_def)

lemma execute_counts:
  "dispatched P (trace (snd (execute t q))) = dispatched P (trace q)"
  "fired P (trace (snd (execute t q))) = fired P (trace q) + (if mNotify t \<and> P (mId t) then 1 else 0)"
  "terminal_reports (trace (snd (execute t q))) = terminal_reports (trace q)"
  using result_terminal [of t]
  by (simp_all add: trace_execute split: sum.split exn.split option.split)

lemma remove_nth_filter:
  "k < length xs \<Longrightarrow>
   length (filter Q (take k xs @ drop (Suc k) xs)) + (if Q (xs ! k) then 1 else 0)
     = length (filter Q xs)"
proof -
  assume k: "k < length xs"
  have "length (filter Q xs) = length (filter Q (take k xs @ xs ! k # drop (Suc k) xs))"
    using id_take_nth_drop [OF k] by simp
  then show ?thesis by simp
qed

lemma remove_nth_length:
  "k < length xs \<Longrightarrow> (of_nat (length (take k xs @ drop (Suc k) xs)) :: 32 word) = of_nat (length xs) - 1"
proof -
  assume k: "k < length xs"
  then have "length (take k xs @ drop (Suc k) xs) = length xs - 1" by simp
  moreover have "1 \<le> length xs" using k by simp
  ultimately show ?thesis by simp
qed

lemma accounted_worker_run: "accounted P q \<Longrightarrow> accounted P (worker_run k q)"
proof (cases "k < length (scheduled q)")
  case False
  assume "accounted P q"
  with False show ?thesis by (simp add: worker_run_def)
next
  case True
  assume b: "accounted P q"
  let ?t = "scheduled q ! k"
  let ?rest = "take k (scheduled q) @ drop (Suc k) (scheduled q)"
  let ?q0 = "q\<lparr>scheduled := ?rest\<rparr>"
  have w: "worker_run k q = snd (execute ?t ?q0)"
    using True by (simp add: worker_run_def)
  have n: "mNotify ?t"
    using b True by (simp add: accounted_def list_all_length)
  have all: "list_all mNotify ?rest"
    using b by (auto simp add: accounted_def list_all_iff dest: in_set_takeD in_set_dropD)
  have cnt: "length (filter (\<lambda>t. P (mId t)) ?rest) + (if P (mId ?t) then 1 else 0)
      = length (filter (\<lambda>t. P (mId t)) (scheduled q))"
    by (rule remove_nth_filter [OF True])
  have tbb: "useTBB q \<or> ?rest = []"
    using b by (auto simp add: accounted_def)
  from b n all cnt tbb show ?thesis
    unfolding w accounted_def waiting_def
    by (simp add: execute_counts)
qed

lemma steady_worker_run:
  assumes "steady q" and "accounted P q"
  shows "steady (worker_run k q)"
proof (cases "k < length (scheduled q)")
  case False
  with assms show ?thesis by (simp add: worker_run_def)
next
  case True
  let ?t = "scheduled q ! k"
  let ?rest = "take k (scheduled q) @ drop (Suc k) (scheduled q)"
  let ?q0 = "q\<lparr>scheduled := ?rest\<rparr>"
  have w: "worker_run k q = snd (execute ?t ?q0)"
    using True by (simp add: worker_run_def)
  have n: "mNotify ?t"
    using assms(2) True by (simp add: accounted_def list_all_length)
  have tbb: "useTBB q"
    using assms(2) True by (auto simp add: accounted_def)
  with assms(1) have c: "first_throw (mNotifiers q) = None"
    by (simp add: steady_def calm_def)
  have len: "(of_nat (length ?rest) :: 32 word) = of_nat (length (scheduled q)) - 1"
    by (rule remove_nth_length [OF True])
  from assms(1) n tbb c len show ?thesis
    unfolding w steady_def
    by (simp add: mNumTasks_execute calm_def)
qed

lemma accounted_run_workers: "accounted P q \<Longrightarrow> accounted P (run_workers ks q)"
  by (induction ks arbitrary: q) (simp_all add: accounted_worker_run)

lemma steady_run_workers:
  "steady q \<Longrightarrow> accounted P q \<Longrightarrow> steady (run_workers ks q)"
  by (induction ks arbitrary: q) (simp_all add: accounted_worker_run steady_worker_run)

lemma accounted_sleep_for: "accounted P q \<Longrightarrow> accounted P (sleep_for s q)"
proof -
  assume "accounted P q"
  then have "accounted P ((emit Slept q)\<lparr>clock := clock q + 500 + fst s\<rparr>)"
    by (simp add: accounted_def emit_def waiting_def)
  then show ?thesis
    unfolding sleep_for_def by (rule accounted_run_workers)
qed

lemma steady_sleep_for:
  assumes "steady q" and "accounted P q"
  shows "steady (sleep_for s q)"
proof -
  let ?q0 = "(emit Slept q)\<lparr>clock := clock q + 500 + fst s\<rparr>"
  from assms have "steady ?q0" and "accounted P ?q0"
    by (simp_all add: steady_def accounted_def emit_def waiting_def calm_def)
  then show ?thesis
    unfolding sleep_for_def by (rule steady_run_workers)
qed

lemma accounted_wait_loop: "accounted P q \<Longrightarrow> accounted P (snd (wait_loop start sched q))"
proof (induction start sched q rule: wait_loop.induct)
  case (1 start sched q)
  show ?case
  proof (cases "canEnqueue q")
    case True
    with "1.prems" show ?thesis by simp
  next
    case False
    with 1 accounted_sleep_for [of P q "next_sleep sched"] show ?thesis
      by (auto simp add: wait_loop_full Let_def)
  qed
qed

lemma steady_wait_loop:
  "steady q \<Longrightarrow> accounted P q \<Longrightarrow> steady (snd (wait_loop start sched q))"
proof (induction start sched q rule: wait_loop.induct)
  case (1 start sched q)
  show ?case
  proof (cases "canEnqueue q")
    case True
    with "1.prems" show ?thesis by simp
  next
    case False
    with 1 accounted_sleep_for [of P q "next_sleep sched"] steady_sleep_for [of q P "next_sleep sched"]
    show ?thesis
      by (auto simp add: wait_loop_full Let_def)
  qed
qed

lemma accounted_dispatch:
  assumes "accounted P q"
  shows "accounted P (snd (dispatch t q))"
proof (cases "useTBB q")
  case True
  with assms show ?thesis
    by (simp add: dispatch_def Let_def emit_def setStatus_def accounted_def waiting_def)
next
  case False
  let ?q3 = "emit (Dispatched (mId t)) (setStatus (mId t) PENDING q)"
  let ?q4 = "snd (execute (t\<lparr>mNotify := True\<rparr>) ?q3)"
  have tr: "trace (snd (dispatch t q)) = trace ?q4" and sc: "scheduled (snd (dispatch t q)) = scheduled ?q4"
    and tbb: "useTBB (snd (dispatch t q)) = useTBB ?q4"
    using False by (simp_all add: dispatch_def Let_def split: sum.split)
  from assms False show ?thesis
    unfolding accounted_def waiting_def tr sc tbb
    by (simp add: execute_counts emit_def setStatus_def)
qed

lemma steady_dispatch:
  assumes "steady q"
  shows "steady (snd (dispatch t q))"
proof (cases "useTBB q")
  case True
  with assms show ?thesis
    by (simp add: dispatch_def Let_def emit_def setStatus_def steady_def calm_def)
next
  case False
  with assms show ?thesis
    by (simp add: dispatch_def Let_def steady_def mNumTasks_execute fst_execute emit_def
        setStatus_def split: sum.split option.split)
qed

lemma accounted_writeGridVec:
  "accounted P q \<Longrightarrow> accounted P (snd (writeGridVec grids archive metadata sched q))"
proof -
  assume b: "accounted P q"
  then have "accounted P (drawn q)"
    by (simp add: accounted_def drawn_def waiting_def)
  then have w: "accounted P (snd (wait_loop (clock q) sched (drawn q)))"
    by (rule accounted_wait_loop)
  then show ?thesis
    by (simp add: writeGridVec_eq accounted_dispatch split: sum.split)
qed

lemma steady_writeGridVec:
  assumes "steady q" and "accounted P q"
  shows "steady (snd (writeGridVec grids archive metadata sched q))"
proof -
  from assms have "steady (drawn q)" and "accounted P (drawn q)"
    by (simp_all add: steady_def accounted_def drawn_def waiting_def calm_def)
  then have w: "steady (snd (wait_loop (clock q) sched (drawn q)))"
    by (rule steady_wait_loop)
  then show ?thesis
    by (simp add: writeGridVec_eq steady_dispatch split: sum.split)
qed

lemma accounted_step: "accounted P q \<Longrightarrow> accounted P (step c q)"
proof (cases c)
  case (WorkerRun k)
  assume "accounted P q"
  with WorkerRun show ?thesis by (simp add: accounted_worker_run)
next
  case (WriteGridVec grids archive metadata sched)
  assume "accounted P q"
  with WriteGridVec show ?thesis by (simp add: accounted_writeGridVec)
next
  case (WriteGrid grid archive metadata sched)
  assume "accounted P q"
  with WriteGrid show ?thesis by (simp add: writeGrid_def accounted_writeGridVec)
next
  case (GetStatus i)
  assume "accounted P q"
  with GetStatus show ?thesis by (simp add: accounted_def waiting_def)
next
  case (AddNotifier n)
  assume "accounted P q"
  with AddNotifier show ?thesis by (simp add: accounted_def waiting_def addNotifier_def Let_def)
next
  case (RemoveNotifier i)
  assume "accounted P q"
  with RemoveNotifier show ?thesis
    by (simp add: accounted_def waiting_def removeNotifier_def split: option.split)
next
  case ClearNotifiers
  assume "accounted P q"
  with ClearNotifiers show ?thesis by (simp add: accounted_def waiting_def clearNotifiers_def)
next
  case (SetCapacity n)
  assume "accounted P q"
  with SetCapacity show ?thesis by (simp add: accounted_def waiting_def setCapacity_def)
next
  case (SetTimeout sec)
  assume "accounted P q"
  with SetTimeout show ?thesis by (simp add: accounted_def waiting_def setTimeout_def)
next
  case (Tick ms)
  assume "accounted P q"
  with Tick show ?thesis by (simp add: accounted_def waiting_def)
qed

lemma accounted_run: "accounted P q \<Longrightarrow> accounted P (run cs q)"
  by (induction cs arbitrary: q) (simp_all add: accounted_step)

lemma accounted_Queue: "accounted P (Queue dt dc tbb n)"
  by (simp add: accounted_def waiting_def Queue_facts)

lemma accounted_history: "accounted P (run cs (Queue dt dc tbb n))"
  by (rule accounted_run) (rule accounted_Queue)

lemma steady_step:
  assumes "steady q" and "accounted P q"
    and "useTBB q \<Longrightarrow> (case c of AddNotifier n \<Rightarrow> \<not> throws n | _ \<Rightarrow> True)"
  shows "steady (step c q)"
proof (cases c)
  case (WorkerRun k)
  with assms show ?thesis by (simp add: steady_worker_run)
next
  case (WriteGridVec grids archive metadata sched)
  with assms show ?thesis by (simp add: steady_writeGridVec)
next
  case (WriteGrid grid archive metadata sched)
  with assms show ?thesis by (simp add: writeGrid_def steady_writeGridVec)
next
  case (GetStatus i)
  with assms show ?thesis by (simp add: steady_def calm_def)
next
  case (AddNotifier n)
  with assms calm_addNotifier [of q n] show ?thesis
    by (auto simp add: steady_def addNotifier_def Let_def)
next
  case (RemoveNotifier i)
  with assms calm_removeNotifier [of q i] show ?thesis
    by (auto simp add: steady_def removeNotifier_def split: option.split)
next
  case ClearNotifiers
  with assms show ?thesis by (simp add: steady_def calm_def clearNotifiers_def)
next
  case (SetCapacity n)
  with assms show ?thesis by (simp add: steady_def calm_def setCapacity_def)
next
  case (SetTimeout sec)
  with assms show ?thesis by (simp add: steady_def calm_def setTimeout_def)
next
  case (Tick ms)
  with assms show ?thesis by (simp add: steady_def calm_def)
qed

lemma useTBB_step [simp]: "useTBB (step c q) = useTBB q"
  by (cases c)
     (simp_all add: writeGrid_def addNotifier_def Let_def removeNotifier_def clearNotifiers_def
        setCapacity_def setTimeout_def split: option.split)

lemma useTBB_run [simp]: "useTBB (run cs q) = useTBB q"
  by (induction cs arbitrary: q) simp_all

lemma steady_run:
  "steady q \<Longrightarrow> accounted P q \<Longrightarrow> (useTBB q \<Longrightarrow> quiet cs) \<Longrightarrow> steady (run cs q)"
proof (induction cs arbitrary: q)
  case Nil
  then show ?case by simp
next
  case (Cons c cs)
  have s: "steady (step c q)"
    using Cons.prems by (intro steady_step [of q P c]) (simp_all add: quiet_def)
  have a: "accounted P (step c q)"
    using Cons.prems(2) by (rule accounted_step)
  have "useTBB (step c q) \<Longrightarrow> quiet cs"
    using Cons.prems(3) by (simp add: quiet_def)
  with Cons.IH [OF s a] show ?case by simp
qed

lemma steady_history:
  "(tbb \<Longrightarrow> quiet cs) \<Longrightarrow> steady (run cs (Queue dt dc tbb n))"
  by (rule steady_run [of _ "\<lambda>i. True"])
     (simp_all add: steady_def calm_def Queue_facts accounted_Queue)

section \<open>Scenarios\<close>

lemma demo_pending_eq:
  "demo_pending =
     \<lparr>mTimeout = 120, mCapacity = 1, mNumTasks = 1, mNextId = 2,
      mStatus = [1 \<mapsto> PENDING], mNotifiers = [], mNextNotifierId = 1, useTBB = True,
      scheduled = [\<lparr>mId = 1, mNotify = True, mGrids = [7], mArchive = ok_archive, mMetadata = []\<rparr>],
      clock = 0, trace = [Dispatched 1]\<rparr>"
  by (simp add: demo_pending_def writeGridVec_admit canEnqueue_def Queue_def Impl_new_def
      dispatch_def task_of_def drawn_def Let_def emit_def setStatus_def)

lemma demo_done_facts:
  "mStatus demo_done 1 = Some SUCCEEDED" "mStatus demo_done 2 = None"
  by (simp_all add: demo_done_def writeGridVec_admit canEnqueue_def Queue_facts
      dispatch_def task_of_def drawn_def Let_def emit_def setStatus_def fst_execute
      mStatus_execute result_def outcome_def ok_archive_def)

lemma demo_pending_facts:
  "mStatus demo_pending 1 = Some PENDING" "scheduled demo_pending \<noteq> []"
  "mNumTasks demo_pending = 1" "mCapacity demo_pending = 1" "mNextId demo_pending = 2"
  "useTBB demo_pending" "mNotifiers demo_pending = []"
  "map mId (scheduled demo_pending) = [1]"
  by (simp_all add: demo_pending_eq)

section \<open>Polling, continued\<close>

text \<open>
  Claim C4. A poll of an identifier that has an entry returns the stored status. If that
  status is \<open>SUCCEEDED\<close> or \<open>FAILED\<close> the poll removes the entry: the same identifier
  polled again, at once or after any further polls, yields \<open>UNKNOWN\<close>. A \<open>PENDING\<close> entry
  is returned and the queue is left as it was. An identifier without an entry yields
  \<open>UNKNOWN\<close> and the queue is left as it was. A poll does not wait: it is a total
  function of the queue, the clock stands still and nothing is appended to the trace
  (no sleep in particular).
\<close>

theorem status_query:
  "(\<forall>st. mStatus q i = Some st \<longrightarrow> fst (status i q) = st)
   \<and> (\<forall>st js. mStatus q i = Some st \<longrightarrow> st = SUCCEEDED \<or> st = FAILED \<longrightarrow>
         mStatus (snd (status i q)) i = None
         \<and> fst (status i (snd (status i q))) = UNKNOWN
         \<and> fst (status i (run (map GetStatus js) (snd (status i q)))) = UNKNOWN)
   \<and> (mStatus q i = Some PENDING \<longrightarrow> fst (status i q) = PENDING \<and> snd (status i q) = q)
   \<and> (mStatus q i = None \<longrightarrow> fst (status i q) = UNKNOWN \<and> snd (status i q) = q)
   \<and> clock (snd (status i q)) = clock q
   \<and> new_events q (snd (status i q)) = []"
proof -
  have first: "fst (status i q) = st" if "mStatus q i = Some st" for st
    using that by (simp add: status_def)
  have gone: "mStatus (snd (status i q)) i = None"
    if "mStatus q i = Some st" "st = SUCCEEDED \<or> st = FAILED" for st
    using that by (auto simp add: status_def)
  have later: "fst (status i (run (map GetStatus js) (snd (status i q)))) = UNKNOWN"
    if "mStatus q i = Some st" "st = SUCCEEDED \<or> st = FAILED" for st js
    using polls_absent [OF gone [OF that], of js] by (simp add: status_absent)
  have again: "fst (status i (snd (status i q))) = UNKNOWN"
    if "mStatus q i = Some st" "st = SUCCEEDED \<or> st = FAILED" for st
    using gone [OF that] by (simp add: status_absent)
  have pending: "fst (status i q) = PENDING \<and> snd (status i q) = q"
    if "mStatus q i = Some PENDING"
    using that by (simp add: status_def)
  have absent: "fst (status i q) = UNKNOWN \<and> snd (status i q) = q"
    if "mStatus q i = None"
    using that by (simp add: status_def)
  have quiet: "clock (snd (status i q)) = clock q \<and> new_events q (snd (status i q)) = []"
    by (simp add: new_events_def)
  from first gone later again pending absent quiet show ?thesis
    by blast
qed

text \<open>
  The three cases at work: a terminal entry, a pending entry, and no entry.
\<close>

theorem status_query_witness:
  "fst (status 1 demo_done) = SUCCEEDED
   \<and> mStatus (snd (status 1 demo_done)) 1 = None
   \<and> fst (status 1 (snd (status 1 demo_done))) = UNKNOWN
   \<and> fst (status 1 (run (map GetStatus [2, 1]) (snd (status 1 demo_done)))) = UNKNOWN
   \<and> fst (status 1 demo_pending) = PENDING
   \<and> snd (status 1 demo_pending) = demo_pending
   \<and> fst (status 2 demo_done) = UNKNOWN
   \<and> snd (status 2 demo_done) = demo_done"
  using status_query [of demo_done 1 ] status_query [of demo_pending 1]
    status_query [of demo_done 2] demo_done_facts demo_pending_facts
  by blast

section \<open>Single grids\<close>

text \<open>
  Claim C10. \<open>writeGrid\<close> is \<open>writeGridVec\<close> on the vector that holds the one grid: the
  same result (the same identifier or the same error) and the same queue afterwards,
  the task, its write and the trace included.
\<close>

theorem writeGrid_one_element_batch:
  "writeGrid grid archive metadata sched q = writeGridVec [grid] archive metadata sched q"
  by (simp add: writeGrid_def)

section \<open>Construction and capacity\<close>

lemma setCapacity_coerces: "capacity (setCapacity n q) \<noteq> 0 \<and> 1 \<le> capacity (setCapacity n q)"
  by (auto simp add: capacity_def setCapacity_def)

lemma setCapacity_keeps: "1 \<le> n \<Longrightarrow> capacity (setCapacity n q) = n"
  by (auto simp add: capacity_def setCapacity_def not_less)

lemma run_workers_idle: "scheduled q = [] \<Longrightarrow> run_workers ks q = q"
  by (induction ks) (simp_all add: worker_run_def)

lemma sleep_for_idle:
  "scheduled q = [] \<Longrightarrow>
   sleep_for s q = (emit Slept q)\<lparr>clock := clock q + 500 + fst s\<rparr>"
  by (simp add: sleep_for_def run_workers_idle emit_def)

lemma wait_loop_zero_capacity:
  "mCapacity q = 0 \<Longrightarrow> mNumTasks q = 0 \<Longrightarrow> scheduled q = [] \<Longrightarrow>
   fst (wait_loop start sched q) = Inl (RuntimeError (mTimeout q))"
proof (induction start sched q rule: wait_loop.induct)
  case (1 start sched q)
  have full: "\<not> canEnqueue q"
    using "1.prems" by (simp add: canEnqueue_def)
  let ?q1 = "sleep_for (next_sleep sched) q"
  have q1: "mCapacity ?q1 = 0" "mNumTasks ?q1 = 0" "scheduled ?q1 = []"
    using "1.prems" by (simp_all add: sleep_for_idle emit_def)
  show ?case
  proof (cases "unat (mTimeout ?q1) < (clock ?q1 - start) div 1000")
    case True
    with full show ?thesis by (simp add: wait_loop_full Let_def)
  next
    case False
    with "1.IH" [OF full refl False q1] full show ?thesis
      by (simp add: wait_loop_full Let_def)
  qed
qed

lemma zero_capacity_admits_nothing:
  "fst (writeGridVec grids archive metadata sched (Queue dt dc tbb 0)) = Inl (RuntimeError dt)"
  using wait_loop_zero_capacity [of "drawn (Queue dt dc tbb 0)" 0 sched]
  by (simp add: writeGridVec_eq drawn_def Queue_facts)

text \<open>
  Claim C9. The constructor stores its argument as it is: a queue constructed with
  capacity 0 has capacity 0, where \<open>setCapacity 0\<close> gives capacity 1. Such a queue admits
  nothing: every submission to it times out.
\<close>

theorem constructor_keeps_zero_capacity:
  "capacity (Queue DEFAULT_TIMEOUT DEFAULT_CAPACITY tbb 0) = 0
   \<and> capacity (setCapacity 0 (Queue DEFAULT_TIMEOUT DEFAULT_CAPACITY tbb 0)) = 1
   \<and> fst (writeGridVec grids archive metadata sched (Queue DEFAULT_TIMEOUT DEFAULT_CAPACITY tbb 0))
       = Inl (RuntimeError DEFAULT_TIMEOUT)"
  by (simp add: capacity_def setCapacity_def Queue_facts zero_capacity_admits_nothing)

section \<open>The run of a task\<close>

lemma new_events_execute:
  "new_events q (snd (execute t q)) =
     Wrote (mId t) (mGrids t) (mMetadata t)
       # (case outcome t of Inl (StdException (Some msg)) \<Rightarrow> [Logged msg] | _ \<Rightarrow> [])
       @ (if mNotify t
          then Fired (mId t) (result t)
                 # fan_out (mNotifiers q) (mId t) (result t) (Queue_size q)
          else [])"
  by (rule new_events_app) (rule trace_execute)

lemma new_events_worker_run:
  assumes "k < length (scheduled q)" and "mNotify (scheduled q ! k)"
  shows "new_events q (worker_run k q) =
     Wrote (mId (scheduled q ! k)) (mGrids (scheduled q ! k)) (mMetadata (scheduled q ! k))
       # (case outcome (scheduled q ! k) of Inl (StdException (Some msg)) \<Rightarrow> [Logged msg] | _ \<Rightarrow> [])
       @ Fired (mId (scheduled q ! k)) (result (scheduled q ! k))
       # fan_out (mNotifiers q) (mId (scheduled q ! k)) (result (scheduled q ! k)) (Queue_size q)"
proof -
  let ?q0 = "q\<lparr>scheduled := take k (scheduled q) @ drop (Suc k) (scheduled q)\<rparr>"
  have "new_events q (worker_run k q) = new_events ?q0 (snd (execute (scheduled q ! k) ?q0))"
    using assms(1) by (simp add: worker_run_def new_events_def)
  with assms(2) show ?thesis
    by (simp add: new_events_execute Queue_size_def)
qed

lemma new_events_submit_inline:
  assumes "\<not> useTBB q" and "canEnqueue q"
  shows "new_events q (snd (writeGridVec grids archive metadata sched q)) =
     Dispatched (mNextId q) # Wrote (mNextId q) grids metadata
       # (case archive grids metadata of Inl (StdException (Some msg)) \<Rightarrow> [Logged msg] | _ \<Rightarrow> [])
       @ Fired (mNextId q) (case archive grids metadata of Inr _ \<Rightarrow> SUCCEEDED | Inl _ \<Rightarrow> FAILED)
       # fan_out (mNotifiers q) (mNextId q)
           (case archive grids metadata of Inr _ \<Rightarrow> SUCCEEDED | Inl _ \<Rightarrow> FAILED) (Queue_size q)"
proof -
  let ?t = "(task_of grids archive metadata q)\<lparr>mNotify := True\<rparr>"
  let ?q3 = "emit (Dispatched (mNextId q)) (setStatus (mNextId q) PENDING (drawn q))"
  have tr: "trace ?q3 = trace q @ [Dispatched (mNextId q)]"
    by (simp add: emit_def setStatus_def drawn_def)
  have same: "trace (snd (writeGridVec grids archive metadata sched q)) = trace (snd (execute ?t ?q3))"
    using assms
    by (simp add: writeGridVec_admit dispatch_def Let_def task_of_def drawn_def split: sum.split)
  have a: "grows q ?q3"
    using tr by (rule growsI)
  have first: "new_events q ?q3 = [Dispatched (mNextId q)]"
    using tr by (rule new_events_app)
  have "new_events q (snd (writeGridVec grids archive metadata sched q))
      = new_events q (snd (execute ?t ?q3))"
    using same by (simp add: new_events_def)
  also have "\<dots> = Dispatched (mNextId q) # new_events ?q3 (snd (execute ?t ?q3))"
    using new_events_trans [OF a grows_execute [of ?q3 ?t]] first by simp
  finally have "new_events q (snd (writeGridVec grids archive metadata sched q))
      = Dispatched (mNextId q) # new_events ?q3 (snd (execute ?t ?q3))" .
  then show ?thesis
    by (simp add: new_events_execute result_def outcome_def task_of_def emit_def setStatus_def
        drawn_def Queue_size_def)
qed

lemma calls_of_calls:
  "calls_of k (calls ns i st) = calls (filter (\<lambda>kv. fst kv = k) ns) i st"
  by (induction ns) (simp_all add: calls_of_def calls_def subscription_def)

lemma calls_of_called [simp]: "calls_of k (called es) = calls_of k es"
  by (induction es) (auto simp add: calls_of_def called_def)

lemma called_calls [simp]: "called (calls ns i st) = calls ns i st"
  by (induction ns) (simp_all add: calls_def called_def subscription_def)

lemma ascending_reached: "ascending ns \<Longrightarrow> ascending (reached ns)"
proof (induction ns)
  case Nil
  then show ?case by simp
next
  case (Cons kn ns)
  from Cons.prems have tl: "ascending ns" and hd: "\<forall>x \<in> set ns. fst kn < fst x"
    by (simp_all add: ascending_def)
  from hd reached_set [of ns] have "\<forall>x \<in> set (reached ns). fst kn < fst x"
    by blast
  with Cons.IH [OF tl] show ?case
    by (simp add: ascending_def split: reaction.split)
qed

lemma ascending_filter_length:
  "ascending ns \<Longrightarrow> length (filter (\<lambda>kv. fst kv = k) ns) \<le> 1"
proof (induction ns)
  case Nil
  then show ?case by simp
next
  case (Cons kn ns)
  from Cons.prems have tl: "ascending ns" and hd: "\<forall>x \<in> set ns. fst kn < fst x"
    by (simp_all add: ascending_def)
  show ?case
  proof (cases "fst kn = k")
    case True
    with hd have "filter (\<lambda>kv. fst kv = k) ns = []"
      by (auto simp add: filter_empty_conv)
    with True show ?thesis by simp
  next
    case False
    with Cons.IH [OF tl] show ?thesis by simp
  qed
qed

text \<open>
  The calls that a completion makes, for a notifier map with ascending keys: those of
  the notifiers reached, no subscription twice, none that is not registered, and every
  registered one when no notifier throws.
\<close>

lemma completion_calls:
  assumes "ascending ns" and "called es = calls (reached ns) i st"
  shows "length (calls_of k es) \<le> 1"
    and "k \<notin> fst ` set ns \<Longrightarrow> calls_of k es = []"
    and "first_throw ns = None \<Longrightarrow> (k, f) \<in> set ns \<Longrightarrow> calls_of k es = [Called k f i st]"
proof -
  have eq: "calls_of k es = calls (filter (\<lambda>kv. fst kv = k) (reached ns)) i st"
    using calls_of_called [of k es] assms(2) by (simp add: calls_of_calls)
  show "length (calls_of k es) \<le> 1"
    using ascending_filter_length [OF ascending_reached [OF assms(1)], of k]
    by (simp add: eq calls_def)
  show "calls_of k es = []" if "k \<notin> fst ` set ns"
  proof -
    from that reached_set [of ns] have "k \<notin> fst ` set (reached ns)" by blast
    then show ?thesis by (simp add: eq absent_filter_key calls_def)
  qed
  show "calls_of k es = [Called k f i st]" if "first_throw ns = None" "(k, f) \<in> set ns"
    using that assms(1) by (simp add: eq reached_calm ascending_filter_key calls_def)
qed

text \<open>A subscription that is not registered stays so until a notifier is registered.\<close>

lemma absent_step:
  "k \<notin> fst ` set (mNotifiers q) \<Longrightarrow> \<not> registers c \<Longrightarrow> k \<notin> fst ` set (mNotifiers (step c q))"
  by (cases c)
     (auto simp add: registers_def writeGrid_def removeNotifier_def map_erase_def
        clearNotifiers_def setCapacity_def setTimeout_def split: option.split)

lemma absent_run:
  "k \<notin> fst ` set (mNotifiers q) \<Longrightarrow> list_all (\<lambda>c. \<not> registers c) cs \<Longrightarrow>
   k \<notin> fst ` set (mNotifiers (run cs q))"
  by (induction cs arbitrary: q) (simp_all add: absent_step)

lemma removed_stays_absent:
  "list_all (\<lambda>c. \<not> registers c) cs1 \<Longrightarrow>
   k \<notin> fst ` set (mNotifiers (run (cs0 @ RemoveNotifier k # cs1) q))"
  by (simp add: absent_run removeNotifier_keys)

lemma cleared_stays_empty:
  assumes "list_all (\<lambda>c. \<not> registers c) cs1"
  shows "mNotifiers (run (cs0 @ ClearNotifiers # cs1) q) = []"
proof -
  have "k \<notin> fst ` set (mNotifiers (run (cs0 @ ClearNotifiers # cs1) q))" for k
    using assms by (simp add: absent_run clearNotifiers_def)
  then have "set (mNotifiers (run (cs0 @ ClearNotifiers # cs1) q)) = {}"
    by force
  then show ?thesis by simp
qed

section \<open>Scenarios, continued\<close>

lemma demo_rude_eq:
  "demo_rude =
     \<lparr>mTimeout = 120, mCapacity = 1, mNumTasks = 0, mNextId = 1,
      mStatus = Map.empty, mNotifiers = [(1, grumpy), (2, polite)], mNextNotifierId = 3,
      useTBB = False, scheduled = [], clock = 0, trace = []\<rparr>"
  by (simp add: demo_rude_def addNotifier_def Let_def Queue_def Impl_new_def)

lemma demo_rude_facts:
  "mNotifiers demo_rude = [(1, grumpy), (2, polite)]" "\<not> useTBB demo_rude"
  "canEnqueue demo_rude" "mNextId demo_rude = 1" "trace demo_rude = []"
  "mStatus demo_rude = Map.empty" "Queue_size demo_rude = 0"
  by (simp_all add: demo_rude_eq canEnqueue_def Queue_size_def)

lemma notifier_facts [simp]:
  "reacts grumpy = Throws (StdException (Some ''observer failed''))"
  "reacts polite = Returns" "reacts curious = ReadsSize"
  by (simp_all add: grumpy_def polite_def curious_def)

lemma demo_busy_facts:
  "trace (run demo_busy (Queue 120 100 True 2)) =
     [Dispatched 1, Dispatched 2, Wrote 1 [7] [], Logged ''disk full'', Fired 1 FAILED, Dispatched 3]"
  "mNumTasks (run demo_busy (Queue 120 100 True 2)) = 2"
  "scheduled (run demo_busy (Queue 120 100 True 2)) =
     [\<lparr>mId = 2, mNotify = True, mGrids = [8], mArchive = ok_archive, mMetadata = []\<rparr>,
      \<lparr>mId = 3, mNotify = True, mGrids = [9], mArchive = ok_archive, mMetadata = []\<rparr>]"
  "mNotifiers (run demo_busy (Queue 120 100 True 2)) = []"
  by (simp_all add: demo_busy_def writeGrid_def writeGridVec_admit canEnqueue_def Queue_facts
      dispatch_def task_of_def drawn_def Let_def emit_def setStatus_def worker_run_def
      trace_execute mNumTasks_execute result_def outcome_def bad_archive_def ok_archive_def)

section \<open>The notification of a task\<close>

text \<open>
  Claim C6. After any history since construction every report on the trace is
  \<open>SUCCEEDED\<close> or \<open>FAILED\<close>, and for every identifier the reports plus the scheduled tasks
  are the admissions: an admitted task reports at most once. A run of a scheduled task
  by a worker appends its write, the logged message if any, then exactly one report,
  with \<open>SUCCEEDED\<close> or \<open>FAILED\<close>, then the calls of the notifiers; so does the run inside a
  submission of the build without TBB. The report comes after the write.
\<close>

theorem sink_fires_once_after_work:
  assumes "q = run cs (Queue dt dc tbb n)"
  shows "terminal_reports (trace q)
    \<and> fired (\<lambda>j. j = i) (trace q) + waiting (\<lambda>j. j = i) q = dispatched (\<lambda>j. j = i) (trace q)
    \<and> fired (\<lambda>j. j = i) (trace q) \<le> dispatched (\<lambda>j. j = i) (trace q)
    \<and> (k < length (scheduled q) \<longrightarrow>
          new_events q (worker_run k q) =
            Wrote (mId (scheduled q ! k)) (mGrids (scheduled q ! k)) (mMetadata (scheduled q ! k))
              # (case outcome (scheduled q ! k) of
                   Inl (StdException (Some msg)) \<Rightarrow> [Logged msg] | _ \<Rightarrow> [])
              @ Fired (mId (scheduled q ! k)) (result (scheduled q ! k))
              # fan_out (mNotifiers q) (mId (scheduled q ! k)) (result (scheduled q ! k))
                  (Queue_size q)
          \<and> reported (new_events q (worker_run k q))
              = [(mId (scheduled q ! k), result (scheduled q ! k))]
          \<and> (result (scheduled q ! k) = SUCCEEDED \<or> result (scheduled q ! k) = FAILED))
    \<and> (\<not> tbb \<and> canEnqueue q \<longrightarrow>
          new_events q (snd (writeGridVec grids archive metadata sched q)) =
            Dispatched (mNextId q) # Wrote (mNextId q) grids metadata
              # (case archive grids metadata of
                   Inl (StdException (Some msg)) \<Rightarrow> [Logged msg] | _ \<Rightarrow> [])
              @ Fired (mNextId q) (case archive grids metadata of Inr _ \<Rightarrow> SUCCEEDED | Inl _ \<Rightarrow> FAILED)
              # fan_out (mNotifiers q) (mNextId q)
                  (case archive grids metadata of Inr _ \<Rightarrow> SUCCEEDED | Inl _ \<Rightarrow> FAILED)
                  (Queue_size q)
          \<and> reported (new_events q (snd (writeGridVec grids archive metadata sched q)))
              = [(mNextId q, case archive grids metadata of Inr _ \<Rightarrow> SUCCEEDED | Inl _ \<Rightarrow> FAILED)])"
proof -
  have b: "accounted (\<lambda>j. j = i) q"
    using assms accounted_history by simp
  have tbb: "useTBB q = tbb"
    using assms by (simp add: Queue_facts)
  have worker: "new_events q (worker_run k q) =
            Wrote (mId (scheduled q ! k)) (mGrids (scheduled q ! k)) (mMetadata (scheduled q ! k))
              # (case outcome (scheduled q ! k) of
                   Inl (StdException (Some msg)) \<Rightarrow> [Logged msg] | _ \<Rightarrow> [])
              @ Fired (mId (scheduled q ! k)) (result (scheduled q ! k))
              # fan_out (mNotifiers q) (mId (scheduled q ! k)) (result (scheduled q ! k))
                  (Queue_size q)"
    if "k < length (scheduled q)"
    using b that by (intro new_events_worker_run) (simp_all add: accounted_def list_all_length)
  have worker_reports: "reported (new_events q (worker_run k q))
      = [(mId (scheduled q ! k), result (scheduled q ! k))]"
    if "k < length (scheduled q)"
    by (simp add: worker [OF that] split: sum.split exn.split option.split)
  have inline: "new_events q (snd (writeGridVec grids archive metadata sched q)) =
            Dispatched (mNextId q) # Wrote (mNextId q) grids metadata
              # (case archive grids metadata of
                   Inl (StdException (Some msg)) \<Rightarrow> [Logged msg] | _ \<Rightarrow> [])
              @ Fired (mNextId q) (case archive grids metadata of Inr _ \<Rightarrow> SUCCEEDED | Inl _ \<Rightarrow> FAILED)
              # fan_out (mNotifiers q) (mNextId q)
                  (case archive grids metadata of Inr _ \<Rightarrow> SUCCEEDED | Inl _ \<Rightarrow> FAILED)
                  (Queue_size q)"
    if "\<not> tbb" "canEnqueue q"
    using that tbb by (intro new_events_submit_inline) simp_all
  have inline_reports: "reported (new_events q (snd (writeGridVec grids archive metadata sched q)))
      = [(mNextId q, case archive grids metadata of Inr _ \<Rightarrow> SUCCEEDED | Inl _ \<Rightarrow> FAILED)]"
    if "\<not> tbb" "canEnqueue q"
    by (simp add: inline [OF that] split: sum.split exn.split option.split)
  from b have "terminal_reports (trace q)"
    and "fired (\<lambda>j. j = i) (trace q) + waiting (\<lambda>j. j = i) q = dispatched (\<lambda>j. j = i) (trace q)"
    by (simp_all add: accounted_def)
  with worker worker_reports inline inline_reports result_terminal [of "scheduled q ! k"]
  show ?thesis
    by (simp del: One_nat_def)
qed

text \<open>
  In the history \<open>demo_busy\<close> task 1 was admitted once and has reported once; the run
  of the scheduled task 2 writes, then reports \<open>SUCCEEDED\<close>. Without TBB a submission
  whose write throws is run on the spot and reports \<open>FAILED\<close> after the write.
\<close>

theorem sink_fires_once_after_work_witness:
  "terminal_reports (trace (run demo_busy (Queue 120 100 True 2)))
   \<and> fired (\<lambda>j. j = 1) (trace (run demo_busy (Queue 120 100 True 2))) = 1
   \<and> dispatched (\<lambda>j. j = 1) (trace (run demo_busy (Queue 120 100 True 2))) = 1
   \<and> new_events (run demo_busy (Queue 120 100 True 2))
        (worker_run 0 (run demo_busy (Queue 120 100 True 2)))
      = [Wrote 2 [8] [], Fired 2 SUCCEEDED]
   \<and> new_events (run [] (Queue 120 100 False 2))
        (snd (writeGridVec [7] bad_archive [] [] (run [] (Queue 120 100 False 2))))
      = [Dispatched 1, Wrote 1 [7] [], Logged ''disk full'', Fired 1 FAILED]"
  using sink_fires_once_after_work [where cs = demo_busy and dt = 120 and dc = 100
      and tbb = True and n = 2 and i = 1 and k = 0, OF refl]
    sink_fires_once_after_work [where cs = "[]" and dt = 120 and dc = 100
      and tbb = False and n = 2 and grids = "[7]" and archive = bad_archive
      and metadata = "[]" and sched = "[]", OF refl]
  by (simp add: demo_busy_facts result_def outcome_def ok_archive_def
      bad_archive_def canEnqueue_def Queue_facts)

section \<open>Errors of the write and errors of the notifiers\<close>

text \<open>
  Claim C2, as amended. \<open>execute\<close> lets no error of the archive write escape: whatever
  the write does (it returns, it throws a \<open>std::exception\<close> with or without a message,
  it throws anything else), a task with its notifier set reports exactly once,
  \<open>SUCCEEDED\<close> if the write returned and \<open>FAILED\<close> if it threw, and the message of a
  \<open>std::exception\<close> is logged. The report is made outside the \<open>try\<close> block: \<open>execute\<close>
  returns normally exactly when no registered notifier throws during the report, and
  otherwise the exception of the first notifier that throws leaves \<open>execute\<close>.
\<close>

theorem execute_contains_errors_of_the_write:
  "fst (execute t q) =
     (if mNotify t
      then (case first_throw (mNotifiers q) of Some e \<Rightarrow> Inl e | None \<Rightarrow> Inr ())
      else Inr ())
   \<and> reported (new_events q (snd (execute t q))) =
       (if mNotify t
        then [(mId t, case mArchive t (mGrids t) (mMetadata t) of
                        Inr _ \<Rightarrow> SUCCEEDED | Inl _ \<Rightarrow> FAILED)]
        else [])
   \<and> logged (new_events q (snd (execute t q))) =
       (case mArchive t (mGrids t) (mMetadata t) of
          Inl (StdException (Some msg)) \<Rightarrow> [msg] | _ \<Rightarrow> [])"
  by (auto simp add: fst_execute new_events_execute result_def outcome_def
      split: sum.split exn.split option.split)

text \<open>
  A task whose write succeeds, run in a queue whose first notifier throws: the exception
  of the notifier leaves \<open>execute\<close>, and in the build without TBB it reaches the client
  that submits the task.
\<close>

theorem execute_raises_counterexample:
  "fst (execute demo_task demo_rude) = Inl (StdException (Some ''observer failed''))
   \<and> fst (writeGridVec [7] ok_archive [] [] demo_rude)
       = Inl (Uncaught (StdException (Some ''observer failed'')))"
  by (simp add: fst_execute fst_writeGridVec demo_task_def demo_rude_facts drawn_def
      canEnqueue_def demo_rude_eq)

section \<open>Scenarios of notification\<close>

lemma archive_facts:
  "ok_archive grids metadata = Inr ()"
  "bad_archive grids metadata = Inl (StdException (Some ''disk full''))"
  by (simp_all add: ok_archive_def bad_archive_def)

lemma demo_three_eq:
  "run demo_three (Queue 120 100 True 2) =
     \<lparr>mTimeout = 120, mCapacity = 2, mNumTasks = 0, mNextId = 1,
      mStatus = Map.empty,
      mNotifiers = [(1, polite), (2, curious), (3, Notifier 60 Returns)],
      mNextNotifierId = 4, useTBB = True, scheduled = [], clock = 0, trace = []\<rparr>"
  by (simp add: demo_three_def addNotifier_def Let_def Queue_def Impl_new_def)

lemma demo_three_removed_eq:
  "run (demo_three @ [RemoveNotifier 2]) (Queue 120 100 True 2) =
     \<lparr>mTimeout = 120, mCapacity = 2, mNumTasks = 0, mNextId = 1,
      mStatus = Map.empty,
      mNotifiers = [(1, polite), (3, Notifier 60 Returns)],
      mNextNotifierId = 4, useTBB = True, scheduled = [], clock = 0, trace = []\<rparr>"
  by (simp add: demo_three_eq removeNotifier_def map_erase_def)

lemma demo_three_submitted:
  "scheduled (run (demo_three @ [WriteGridVec [7] ok_archive [] []]) (Queue 120 100 True 2))
     = [\<lparr>mId = 1, mNotify = True, mGrids = [7], mArchive = ok_archive, mMetadata = []\<rparr>]"
  "mNotifiers (run (demo_three @ [WriteGridVec [7] ok_archive [] []]) (Queue 120 100 True 2))
     = [(1, polite), (2, curious), (3, Notifier 60 Returns)]"
  "scheduled (run (demo_three @ RemoveNotifier 2 # [WriteGridVec [7] ok_archive [] []])
       (Queue 120 100 True 2))
     = [\<lparr>mId = 1, mNotify = True, mGrids = [7], mArchive = ok_archive, mMetadata = []\<rparr>]"
  "mNotifiers (run (demo_three @ RemoveNotifier 2 # [WriteGridVec [7] ok_archive [] []])
       (Queue 120 100 True 2))
     = [(1, polite), (3, Notifier 60 Returns)]"
  using demo_three_removed_eq
  by (simp_all add: demo_three_eq writeGridVec_admit canEnqueue_def dispatch_def task_of_def
      drawn_def Let_def emit_def setStatus_def)

lemma demo_polite_facts:
  "mNotifiers (run [AddNotifier polite] (Queue 120 100 False 2)) = [(1, polite)]"
  "canEnqueue (run [AddNotifier polite] (Queue 120 100 False 2))"
  "mNextId (run [AddNotifier polite] (Queue 120 100 False 2)) = 1"
  by (simp_all add: addNotifier_def Let_def Queue_facts canEnqueue_def)

section \<open>The calls of the notifiers\<close>




section \<open>The entry of a completed task\<close>

lemma new_events_setStatusWithNotification:
  "new_events q (snd (setStatusWithNotification i st q)) = fan_out (mNotifiers q) i st (Queue_size q)"
  by (rule new_events_app) (rule trace_setStatusWithNotification)

lemma reached_Nil_iff: "reached ns = [] \<longleftrightarrow> ns = []"
  by (cases ns) simp_all

text \<open>
  Claim C5, as amended. When the completion handler runs for a task that ends with
  \<open>SUCCEEDED\<close> or \<open>FAILED\<close>, an observer is called if and only if a notifier is
  registered, and the entry of the task is removed if and only if a notifier is
  registered and none of the registered notifiers throws; so, when none throws, the
  entry is removed if and only if an observer was called. With a notifier registered
  and none throwing a poll right after the completion yields \<open>UNKNOWN\<close>. With none
  registered, or with one that throws, the terminal entry stays: the next poll yields the
  terminal status and the one after it \<open>UNKNOWN\<close>.
\<close>

theorem completion_removes_entry_unless_notifier_throws:
  assumes "st = SUCCEEDED \<or> st = FAILED"
    and "q' = snd (setStatusWithNotification i st q)"
  shows "called (new_events q q') = calls (reached (mNotifiers q)) i st
    \<and> (called (new_events q q') \<noteq> []) = (mNotifiers q \<noteq> [])
    \<and> (mStatus q' i = None) = (mNotifiers q \<noteq> [] \<and> first_throw (mNotifiers q) = None)
    \<and> (first_throw (mNotifiers q) = None \<longrightarrow>
          (mStatus q' i = None) = (called (new_events q q') \<noteq> []))
    \<and> (mNotifiers q \<noteq> [] \<and> first_throw (mNotifiers q) = None \<longrightarrow>
          fst (status i q') = UNKNOWN)
    \<and> (mNotifiers q = [] \<or> first_throw (mNotifiers q) \<noteq> None \<longrightarrow>
          mStatus q' i = Some st
          \<and> fst (status i q') = st
          \<and> fst (status i (snd (status i q'))) = UNKNOWN)"
proof -
  have ev: "called (new_events q q') = calls (reached (mNotifiers q)) i st"
    using assms(2) by (simp add: new_events_setStatusWithNotification called_fan_out)
  have some: "(called (new_events q q') \<noteq> []) = (mNotifiers q \<noteq> [])"
    by (simp add: ev calls_def reached_Nil_iff)
  have entry: "mStatus q' i = (if mNotifiers q \<noteq> [] \<and> first_throw (mNotifiers q) = None
      then None else Some st)"
    using assms by (simp add: mStatus_setStatusWithNotification)
  from ev some entry assms(1) show ?thesis
    by (auto simp add: status_def)
qed

text \<open>
  With two notifiers that return the entry of task 7 is gone after the completion;
  with none registered it stays for one poll.
\<close>

theorem completion_removes_entry_unless_notifier_throws_witness:
  "called (new_events (run [AddNotifier polite, AddNotifier curious] (Queue 120 100 False 1))
      (snd (setStatusWithNotification 7 FAILED
        (run [AddNotifier polite, AddNotifier curious] (Queue 120 100 False 1)))))
     = [Called 1 polite 7 FAILED, Called 2 curious 7 FAILED]
   \<and> mStatus (snd (setStatusWithNotification 7 FAILED
        (run [AddNotifier polite, AddNotifier curious] (Queue 120 100 False 1)))) 7 = None
   \<and> fst (status 7 (snd (setStatusWithNotification 7 FAILED
        (run [AddNotifier polite, AddNotifier curious] (Queue 120 100 False 1))))) = UNKNOWN
   \<and> mStatus (snd (setStatusWithNotification 7 SUCCEEDED (Queue 120 100 False 1))) 7 = Some SUCCEEDED
   \<and> fst (status 7 (snd (setStatusWithNotification 7 SUCCEEDED (Queue 120 100 False 1)))) = SUCCEEDED
   \<and> fst (status 7 (snd (status 7 (snd (setStatusWithNotification 7 SUCCEEDED (Queue 120 100 False 1))))))
       = UNKNOWN"
  using completion_removes_entry_unless_notifier_throws
      [where st = FAILED and i = 7
        and q = "run [AddNotifier polite, AddNotifier curious] (Queue 120 100 False 1)", OF _ refl]
    completion_removes_entry_unless_notifier_throws
      [where st = SUCCEEDED and i = 7 and q = "Queue 120 100 False 1", OF _ refl]
  by (simp add: addNotifier_def Let_def Queue_facts calls_def)

text \<open>
  The first of two registered notifiers throws: an observer was called for task 1, yet
  the entry of the task is still there and a poll yields \<open>SUCCEEDED\<close>, not \<open>UNKNOWN\<close>.
\<close>

theorem entry_kept_though_observer_called_counterexample:
  "mNotifiers demo_rude \<noteq> []
   \<and> called (new_events demo_rude (snd (setStatusWithNotification 1 SUCCEEDED demo_rude)))
       = [Called 1 grumpy 1 SUCCEEDED]
   \<and> mStatus (snd (setStatusWithNotification 1 SUCCEEDED demo_rude)) 1 = Some SUCCEEDED
   \<and> fst (status 1 (snd (setStatusWithNotification 1 SUCCEEDED demo_rude))) = SUCCEEDED
   \<and> fst (status 1 (snd (writeGridVec [7] ok_archive [] [] demo_rude))) = SUCCEEDED"
  by (simp add: new_events_setStatusWithNotification mStatus_setStatusWithNotification
      demo_rude_facts status_def writeGridVec_admit dispatch_def fst_execute mStatus_execute
      task_of_def drawn_def Let_def emit_def setStatus_def result_def outcome_def ok_archive_def)

section \<open>The size of the queue\<close>

lemma Queue_size_clamped: "0 \<le> sint (Queue_size q)"
  by (simp add: Queue_size_def)

lemma sint_of_nat_small: "n < 2 ^ 31 \<Longrightarrow> sint (of_nat n :: 32 word) = int n"
  by (simp add: signed_of_nat signed_take_bit_int_eq_self)

lemma Queue_size_in_flight:
  assumes "mNumTasks q = of_nat m" and "m < 2 ^ 31"
  shows "unat (Queue_size q) = m"
proof -
  have s: "sint (mNumTasks q) = int m"
    using assms by (simp add: sint_of_nat_small)
  have "unat (of_nat m :: 32 word) = m"
    using assms(2) by (simp add: unat_of_nat)
  with s assms(1) show ?thesis
    by (simp add: Queue_size_def)
qed

lemma in_flight_history:
  assumes "q = run cs (Queue dt dc tbb n)"
  shows "admitted q = completed q + length (scheduled q)"
    and "tbb \<or> scheduled q = []"
    and "list_all mNotify (scheduled q)"
    and "\<not> tbb \<or> quiet cs \<Longrightarrow> mNumTasks q = of_nat (length (scheduled q))"
    and "\<not> tbb \<or> quiet cs \<Longrightarrow> tbb \<Longrightarrow> calm q"
proof -
  have b: "accounted (\<lambda>i. True) q"
    using assms accounted_history by simp
  then show "admitted q = completed q + length (scheduled q)"
    by (simp add: accounted_def admitted_def completed_def waiting_def)
  from b assms show "tbb \<or> scheduled q = []"
    by (simp add: accounted_def Queue_facts)
  from b show "list_all mNotify (scheduled q)"
    by (simp add: accounted_def)
  have s: "steady q" if "\<not> tbb \<or> quiet cs"
    using that assms steady_history [of tbb cs dt dc n] by auto
  from s show "mNumTasks q = of_nat (length (scheduled q))" if "\<not> tbb \<or> quiet cs"
    using that by (simp add: steady_def)
  from s assms show "calm q" if "\<not> tbb \<or> quiet cs" "tbb"
    using that by (simp add: steady_def Queue_facts)
qed

lemma sizes_read_execute_events:
  "set (sizes_read (Wrote i gs md
       # (case x of Inl (StdException (Some msg)) \<Rightarrow> [Logged msg] | _ \<Rightarrow> [])
       @ Fired i st # fan_out ns i st sz)) \<subseteq> {sz}"
  using sizes_read_fan_out [of ns i st sz]
  by (simp split: sum.split exn.split option.split)

lemma sizes_read_worker_run:
  assumes "k < length (scheduled q)" and "mNotify (scheduled q ! k)"
  shows "set (sizes_read (new_events q (worker_run k q))) \<subseteq> {Queue_size q}"
  by (simp only: new_events_worker_run [OF assms] sizes_read_execute_events)

lemma sizes_read_submit_inline:
  assumes "\<not> useTBB q" and "canEnqueue q"
  shows "set (sizes_read (new_events q (snd (writeGridVec grids archive metadata sched q))))
     \<subseteq> {Queue_size q}"
  using sizes_read_execute_events
  by (simp add: new_events_submit_inline [OF assms])

text \<open>
  A submission of the build without TBB that finds room, with no notifier that throws:
  the queue it leaves is the one after the run of the task with the counter advanced.
\<close>

lemma submit_inline_state:
  assumes "\<not> useTBB q" and "canEnqueue q" and "calm q"
    and "qe = snd (execute ((task_of grids archive metadata q)\<lparr>mNotify := True\<rparr>)
           (emit (Dispatched (mNextId q)) (setStatus (mNextId q) PENDING (drawn q))))"
  shows "snd (writeGridVec grids archive metadata sched q) = qe\<lparr>mNumTasks := mNumTasks qe + 1\<rparr>"
    and "mNumTasks qe = mNumTasks q - 1"
proof -
  let ?q3 = "emit (Dispatched (mNextId q)) (setStatus (mNextId q) PENDING (drawn q))"
  have n: "mNotifiers ?q3 = mNotifiers q" and u: "useTBB (drawn q) = useTBB q"
    and m: "mNumTasks ?q3 = mNumTasks q"
    by (simp_all add: emit_def setStatus_def drawn_def)
  have ok: "fst (execute ((task_of grids archive metadata q)\<lparr>mNotify := True\<rparr>) ?q3) = Inr ()"
    using assms(3) by (simp add: fst_execute n calm_def)
  show "snd (writeGridVec grids archive metadata sched q) = qe\<lparr>mNumTasks := mNumTasks qe + 1\<rparr>"
    using assms(1,2,4) ok
    by (simp add: writeGridVec_admit dispatch_def Let_def u task_of_def drawn_def)
  show "mNumTasks qe = mNumTasks q - 1"
    using assms(3,4) by (simp add: mNumTasks_execute n m calm_def)
qed


lemma demo_curious_eq:
  "run [AddNotifier curious, WriteGridVec [7] ok_archive [] []] (Queue 120 100 True 2) =
     \<lparr>mTimeout = 120, mCapacity = 2, mNumTasks = 1, mNextId = 2,
      mStatus = [1 \<mapsto> PENDING], mNotifiers = [(1, curious)], mNextNotifierId = 2,
      useTBB = True,
      scheduled = [\<lparr>mId = 1, mNotify = True, mGrids = [7], mArchive = ok_archive, mMetadata = []\<rparr>],
      clock = 0, trace = [Dispatched 1]\<rparr>"
  by (simp add: addNotifier_def Let_def Queue_def Impl_new_def writeGridVec_admit canEnqueue_def
      dispatch_def task_of_def drawn_def emit_def setStatus_def)

lemma demo_curious_facts:
  "trace (run demo_curious (Queue 120 100 True 2)) =
     [Dispatched 1, Wrote 1 [7] [], Fired 1 SUCCEEDED, Called 1 curious 1 SUCCEEDED, SizeRead 1]"
  "mNumTasks (run demo_curious (Queue 120 100 True 2)) = 0"
  using demo_curious_eq
  by (simp_all add: demo_curious_def worker_run_def trace_execute mNumTasks_execute result_def
      outcome_def archive_facts Queue_size_def)

lemma demo_grumpy_eq:
  "run [AddNotifier grumpy, WriteGridVec [7] ok_archive [] []] (Queue 120 100 True 2) =
     \<lparr>mTimeout = 120, mCapacity = 2, mNumTasks = 1, mNextId = 2,
      mStatus = [1 \<mapsto> PENDING], mNotifiers = [(1, grumpy)], mNextNotifierId = 2,
      useTBB = True,
      scheduled = [\<lparr>mId = 1, mNotify = True, mGrids = [7], mArchive = ok_archive, mMetadata = []\<rparr>],
      clock = 0, trace = [Dispatched 1]\<rparr>"
  by (simp add: addNotifier_def Let_def Queue_def Impl_new_def writeGridVec_admit canEnqueue_def
      dispatch_def task_of_def drawn_def emit_def setStatus_def)

lemma demo_grumpy_facts:
  "trace (run demo_grumpy (Queue 120 100 True 2)) =
     [Dispatched 1, Wrote 1 [7] [], Fired 1 SUCCEEDED, Called 1 grumpy 1 SUCCEEDED]"
  "mNumTasks (run demo_grumpy (Queue 120 100 True 2)) = 1"
  "scheduled (run demo_grumpy (Queue 120 100 True 2)) = []"
  using demo_grumpy_eq
  by (simp_all add: demo_grumpy_def worker_run_def trace_execute mNumTasks_execute result_def
      outcome_def archive_facts Queue_size_def)

text \<open>A flood of submissions into a TBB queue of the largest capacity: all are admitted.\<close>

lemma flood_scheduled:
  "m \<le> 2 ^ 31 \<Longrightarrow>
   length (scheduled (run (replicate m (WriteGridVec [] ok_archive [] [])) (Queue dt dc True 4294967295))) = m
   \<and> mCapacity (run (replicate m (WriteGridVec [] ok_archive [] [])) (Queue dt dc True 4294967295)) = 4294967295"
proof (induction m)
  case 0
  then show ?case by (simp add: Queue_facts)
next
  case (Suc m)
  let ?c = "WriteGridVec [] ok_archive [] []"
  let ?q = "run (replicate m ?c) (Queue dt dc True 4294967295)"
  from Suc have len: "length (scheduled ?q) = m" and cap: "mCapacity ?q = 4294967295" and m: "m < 2 ^ 31"
    by simp_all
  have "quiet (replicate m ?c)"
    by (simp add: quiet_def list_all_length)
  then have "steady ?q"
    by (intro steady_history) simp
  then have "mNumTasks ?q = of_nat m"
    using len by (simp add: steady_def)
  then have "sint (mNumTasks ?q) = int m"
    using m by (simp add: sint_of_nat_small)
  with m cap have can: "canEnqueue ?q"
    by (simp add: canEnqueue_def)
  have split: "replicate (Suc m) ?c = replicate m ?c @ [?c]"
    by (simp add: replicate_append_same)
  have tbb: "useTBB (drawn ?q)"
    by (simp add: drawn_def Queue_facts)
  show ?case
    using len cap
    by (simp only: split run_append run_Cons run_Nil step.simps)
       (simp add: writeGridVec_admit [OF can] dispatch_def Let_def emit_def setStatus_def
          drawn_def Queue_facts)
qed

lemma demo_flood_facts:
  "length (scheduled (run demo_flood (Queue 120 100 True 4294967295))) = 2 ^ 31"
  "mNumTasks (run demo_flood (Queue 120 100 True 4294967295)) = 2 ^ 31"
proof -
  let ?q = "run demo_flood (Queue 120 100 True 4294967295)"
  show len: "length (scheduled ?q) = 2 ^ 31"
    using flood_scheduled [of "2 ^ 31" 120 100] by (simp add: demo_flood_def)
  have "quiet demo_flood"
    by (simp add: quiet_def demo_flood_def list_all_length)
  then have "steady ?q"
    by (intro steady_history) simp
  then show "mNumTasks ?q = 2 ^ 31"
    using len by (simp add: steady_def)
qed

lemma quiet_demo_busy: "quiet demo_busy"
  by (simp add: quiet_def demo_busy_def)



section \<open>Submissions that time out\<close>

lemma worker_run_no_pending:
  "mStatus (worker_run k q) i = Some PENDING \<Longrightarrow> mStatus q i = Some PENDING"
  using result_terminal [of "scheduled q ! k"]
  by (auto simp add: worker_run_def mStatus_execute split: if_splits)

lemma run_workers_no_pending:
  "mStatus (run_workers ks q) i = Some PENDING \<Longrightarrow> mStatus q i = Some PENDING"
  by (induction ks arbitrary: q) (auto dest: worker_run_no_pending)

lemma sleep_for_no_pending:
  "mStatus (sleep_for s q) i = Some PENDING \<Longrightarrow> mStatus q i = Some PENDING"
  by (auto simp add: sleep_for_def emit_def dest: run_workers_no_pending)

lemma wait_loop_no_pending:
  "mStatus (snd (wait_loop start sched q)) i = Some PENDING \<Longrightarrow> mStatus q i = Some PENDING"
proof (induction start sched q rule: wait_loop.induct)
  case (1 start sched q)
  show ?case
  proof (cases "canEnqueue q")
    case True
    with "1.prems" show ?thesis by simp
  next
    case False
    with 1 show ?thesis
      by (auto simp add: wait_loop_full Let_def split: if_splits dest: sleep_for_no_pending)
  qed
qed

lemma worker_run_scheduled: "set (scheduled (worker_run k q)) \<subseteq> set (scheduled q)"
  by (auto simp add: worker_run_def dest: in_set_takeD in_set_dropD)

lemma run_workers_scheduled: "set (scheduled (run_workers ks q)) \<subseteq> set (scheduled q)"
proof (induction ks arbitrary: q)
  case Nil
  show ?case by simp
next
  case (Cons k ks)
  from Cons [of "worker_run k q"] worker_run_scheduled [of k q] show ?case
    by auto
qed

lemma sleep_for_scheduled: "set (scheduled (sleep_for s q)) \<subseteq> set (scheduled q)"
  using run_workers_scheduled [of "snd s" "(emit Slept q)\<lparr>clock := clock q + 500 + fst s\<rparr>"]
  by (simp add: sleep_for_def emit_def)

lemma wait_loop_scheduled: "set (scheduled (snd (wait_loop start sched q))) \<subseteq> set (scheduled q)"
proof (induction start sched q rule: wait_loop.induct)
  case (1 start sched q)
  show ?case
  proof (cases "canEnqueue q")
    case True
    then show ?thesis by simp
  next
    case False
    with 1 sleep_for_scheduled [of "next_sleep sched" q] show ?thesis
      by (auto simp add: wait_loop_full Let_def)
  qed
qed

lemma worker_run_dispatched: "dispatched P (trace (worker_run k q)) = dispatched P (trace q)"
  by (simp add: worker_run_def execute_counts)

lemma run_workers_dispatched: "dispatched P (trace (run_workers ks q)) = dispatched P (trace q)"
  by (induction ks arbitrary: q) (simp_all add: worker_run_dispatched)

lemma sleep_for_dispatched: "dispatched P (trace (sleep_for s q)) = dispatched P (trace q)"
  by (simp add: sleep_for_def run_workers_dispatched emit_def)

lemma wait_loop_dispatched:
  "dispatched P (trace (snd (wait_loop start sched q))) = dispatched P (trace q)"
proof (induction start sched q rule: wait_loop.induct)
  case (1 start sched q)
  show ?case
  proof (cases "canEnqueue q")
    case True
    then show ?thesis by simp
  next
    case False
    with 1 show ?thesis
      by (simp add: wait_loop_full Let_def sleep_for_dispatched)
  qed
qed

lemma dispatch_dispatched:
  "dispatched P (trace (snd (dispatch t q))) = dispatched P (trace q) + (if P (mId t) then 1 else 0)"
  by (simp add: dispatch_def Let_def execute_counts emit_def setStatus_def split: sum.split)

lemma dispatched_new_events:
  "grows q q' \<Longrightarrow> dispatched P (trace q') = dispatched P (trace q) + dispatched P (new_events q q')"
  by (metis dispatched_simps(9) grows_def)

lemma writeGridVec_failed:
  assumes "fst (writeGridVec grids archive metadata sched q) = Inl (RuntimeError n)"
  shows "snd (writeGridVec grids archive metadata sched q) = snd (wait_loop (clock q) sched (drawn q))"
  using writeGridVec_RuntimeError [OF assms] by (simp add: writeGridVec_eq)

lemma canEnqueue_drawn [simp]: "canEnqueue (drawn q) = canEnqueue q"
  by (simp add: canEnqueue_def drawn_def)

lemma writeGridVec_expired:
  assumes "fst (writeGridVec grids archive metadata sched q) = Inl (RuntimeError n)"
  shows "unat (mTimeout q) < (clock (snd (writeGridVec grids archive metadata sched q)) - clock q) div 1000"
    and "\<not> canEnqueue q"
proof -
  from writeGridVec_RuntimeError [OF assms]
  have l: "fst (wait_loop (clock q) sched (drawn q)) = Inl (RuntimeError n)"
    by simp
  from wait_loop_expired [OF l] writeGridVec_failed [OF assms]
  show "unat (mTimeout q) < (clock (snd (writeGridVec grids archive metadata sched q)) - clock q) div 1000"
    by (simp add: drawn_def)
  show "\<not> canEnqueue q"
  proof
    assume "canEnqueue q"
    then have "canEnqueue (drawn q)" by simp
    with l show False by simp
  qed
qed

text \<open>A sleep during which no worker finishes a task leaves the queue as full as it was.\<close>

lemma sleep_for_no_picks:
  "snd s = [] \<Longrightarrow> sleep_for s q = (emit Slept q)\<lparr>clock := clock q + 500 + fst s\<rparr>"
  by (simp add: sleep_for_def)

lemma next_sleep_idle: "list_all (\<lambda>s. snd s = []) sched \<Longrightarrow> snd (next_sleep sched) = []"
  by (cases sched) (simp_all add: next_sleep_def)

lemma wait_loop_idle:
  "\<not> canEnqueue q \<Longrightarrow> list_all (\<lambda>s. snd s = []) sched \<Longrightarrow>
   fst (wait_loop start sched q) = Inl (RuntimeError (mTimeout q))"
proof (induction start sched q rule: wait_loop.induct)
  case (1 start sched q)
  let ?q1 = "sleep_for (next_sleep sched) q"
  have q1: "?q1 = (emit Slept q)\<lparr>clock := clock q + 500 + fst (next_sleep sched)\<rparr>"
    using "1.prems"(2) by (simp add: sleep_for_no_picks next_sleep_idle)
  have full: "\<not> canEnqueue ?q1"
    using "1.prems"(1) by (simp add: q1 canEnqueue_def emit_def)
  have rest: "list_all (\<lambda>s. snd s = []) (tl sched)"
    using "1.prems"(2) by (cases sched) simp_all
  show ?case
  proof (cases "unat (mTimeout ?q1) < (clock ?q1 - start) div 1000")
    case True
    with "1.prems"(1) show ?thesis
      by (simp add: wait_loop_full Let_def)
  next
    case False
    from "1.IH" [OF "1.prems"(1) refl False full rest] False "1.prems"(1)
    show ?thesis
      by (simp add: wait_loop_full Let_def)
  qed
qed

lemma grows_dispatch: "grows q (snd (dispatch t q))"
proof -
  let ?q3 = "emit (Dispatched (mId t)) (setStatus (mId t) PENDING q)"
  have a: "grows q ?q3"
    by (intro growsI [of _ _ "[Dispatched (mId t)]"]) (simp add: emit_def setStatus_def)
  have "grows ?q3 (snd (execute (t\<lparr>mNotify := True\<rparr>) ?q3))"
    by (rule grows_execute)
  then have b: "grows ?q3 (snd (dispatch t q))"
    by (simp add: dispatch_def Let_def grows_def new_events_def split: sum.split)
  from a b show ?thesis by (rule grows_trans)
qed

lemma writeGridVec_sleeps_first:
  assumes "\<not> canEnqueue q"
  shows "\<exists>es. new_events q (snd (writeGridVec grids archive metadata sched q)) = Slept # es"
proof -
  let ?q1 = "snd (wait_loop (clock q) sched (drawn q))"
  have full: "\<not> canEnqueue (drawn q)"
    using assms by simp
  from wait_loop_sleeps_first [OF full, of "clock q" sched]
  obtain es where es: "new_events (drawn q) ?q1 = Slept # es"
    by blast
  have a: "grows (drawn q) ?q1"
    by (rule grows_wait_loop)
  have same: "new_events q x = new_events (drawn q) x" for x
    by (simp add: new_events_def drawn_def)
  show ?thesis
  proof (cases "fst (wait_loop (clock q) sched (drawn q))")
    case (Inl e)
    then have "snd (writeGridVec grids archive metadata sched q) = ?q1"
      by (simp add: writeGridVec_eq)
    with es same show ?thesis by simp
  next
    case (Inr u)
    then have "snd (writeGridVec grids archive metadata sched q)
        = snd (dispatch (task_of grids archive metadata q) ?q1)"
      by (simp add: writeGridVec_eq)
    with new_events_trans [OF a grows_dispatch [of ?q1 "task_of grids archive metadata q"]] es same
    show ?thesis by simp
  qed
qed

section \<open>Scenarios of admission\<close>

lemma demo_full_eq:
  "demo_full =
     \<lparr>mTimeout = 1, mCapacity = 1, mNumTasks = 1, mNextId = 2,
      mStatus = [1 \<mapsto> PENDING], mNotifiers = [], mNextNotifierId = 1, useTBB = True,
      scheduled = [\<lparr>mId = 1, mNotify = True, mGrids = [7], mArchive = ok_archive, mMetadata = []\<rparr>],
      clock = 0, trace = [Dispatched 1]\<rparr>"
  by (simp add: demo_full_def demo_pending_eq setTimeout_def)

lemma demo_impatient_eq:
  "demo_impatient =
     \<lparr>mTimeout = 0, mCapacity = 1, mNumTasks = 1, mNextId = 2,
      mStatus = [1 \<mapsto> PENDING], mNotifiers = [], mNextNotifierId = 1, useTBB = True,
      scheduled = [\<lparr>mId = 1, mNotify = True, mGrids = [7], mArchive = ok_archive, mMetadata = []\<rparr>],
      clock = 0, trace = [Dispatched 1]\<rparr>"
  by (simp add: demo_impatient_def demo_pending_eq setTimeout_def)

lemma demo_full_submit:
  "fst (writeGridVec [8] ok_archive [] [] demo_full) = Inl (RuntimeError 1)"
  "snd (writeGridVec [8] ok_archive [] [] demo_full) =
     demo_full\<lparr>mNextId := 3, clock := 2000, trace := [Dispatched 1, Slept, Slept, Slept, Slept]\<rparr>"
  by (simp_all add: demo_full_eq writeGridVec_eq drawn_def
      wait_loop_full canEnqueue_def sleep_for_def next_sleep_def emit_def Let_def)

lemma demo_full_freed:
  "canEnqueue (run_workers [0] (snd (writeGridVec [8] ok_archive [] [] demo_full)))"
  "canEnqueue (worker_run 0 (snd (writeGridVec [8] ok_archive [] [] demo_full)))"
  "mNextId (worker_run 0 (snd (writeGridVec [8] ok_archive [] [] demo_full))) = 3"
  "useTBB (worker_run 0 (snd (writeGridVec [8] ok_archive [] [] demo_full)))"
  by (simp_all add: demo_full_submit)
     (simp_all add: demo_full_eq worker_run_def mNumTasks_execute canEnqueue_def)

lemma demo_full_later:
  "fst (writeGridVec [9] ok_archive [] []
     (worker_run 0 (snd (writeGridVec [8] ok_archive [] [] demo_full)))) = Inr 3"
  using demo_full_freed
  by (simp add: fst_writeGridVec)

lemma demo_impatient_submit:
  "fst (writeGridVec [8] ok_archive [] [] demo_impatient) = Inl (RuntimeError 0)"
  "snd (writeGridVec [8] ok_archive [] [] demo_impatient) =
     demo_impatient\<lparr>mNextId := 3, clock := 1000, trace := [Dispatched 1, Slept, Slept]\<rparr>"
  by (simp_all add: demo_impatient_eq writeGridVec_eq drawn_def
      wait_loop_full canEnqueue_def sleep_for_def next_sleep_def emit_def Let_def)

lemma demo_impatient_admitted:
  "fst (writeGridVec [8] ok_archive [] [(0, [0])] demo_impatient) = Inr 2"
  "new_events demo_impatient (snd (writeGridVec [8] ok_archive [] [(0, [0])] demo_impatient))
     = [Slept, Wrote 1 [7] [], Fired 1 SUCCEEDED, Dispatched 2]"
  by (simp_all add: demo_impatient_eq writeGridVec_eq drawn_def
      wait_loop_full canEnqueue_def sleep_for_def next_sleep_def emit_def Let_def
      worker_run_def trace_execute mNumTasks_execute mStatus_execute fst_execute result_def
      outcome_def archive_facts setStatus_def dispatch_def task_of_def new_events_def)

section \<open>The admission error\<close>




section \<open>A timeout of zero\<close>

text \<open>
  The loop of \<open>enqueue\<close> with a timeout of 0, entered with the queue full: it sleeps; if
  that sleep overran by less than 500 milliseconds and left room, the task is let
  through; in every other case the loop throws, after this sleep or after the next.
\<close>

lemma wait_loop_zero_timeout:
  assumes "mTimeout q = 0" and "\<not> canEnqueue q" and "start = clock q"
    and "q1 = sleep_for (next_sleep sched) q"
  shows "fst (wait_loop start sched q) =
      (if fst (next_sleep sched) < 500 \<and> canEnqueue q1 then Inr () else Inl (RuntimeError 0))"
    and "fst (next_sleep sched) < 500 \<Longrightarrow> canEnqueue q1 \<Longrightarrow> snd (wait_loop start sched q) = q1"
proof -
  have t1: "mTimeout q1 = 0" and c1: "clock q1 = clock q + 500 + fst (next_sleep sched)"
    using assms(1,4) by simp_all
  have "(0 < (clock q1 - start) div 1000) = (1000 \<le> clock q1 - start)"
    by (simp add: div_greater_zero_iff)
  also have "\<dots> = (\<not> fst (next_sleep sched) < 500)"
    by (auto simp add: c1 assms(3))
  finally have first: "(0 < (clock q1 - start) div 1000) = (\<not> fst (next_sleep sched) < 500)" .
  have e: "(unat (mTimeout q1) < (clock q1 - start) div 1000) = (\<not> fst (next_sleep sched) < 500)"
    using first by (simp only: t1 unsigned_0)
  have w: "wait_loop start sched q =
      (if unat (mTimeout q1) < (clock q1 - start) div 1000
       then (Inl (RuntimeError (mTimeout q1)), q1)
       else wait_loop start (tl sched) q1)"
    unfolding assms(4) using assms(2) by (simp add: wait_loop_full Let_def)
  have unfold1: "wait_loop start sched q =
      (if \<not> fst (next_sleep sched) < 500
       then (Inl (RuntimeError 0), q1)
       else wait_loop start (tl sched) q1)"
    by (simp only: w e) (simp only: t1)
  have second: "fst (wait_loop start (tl sched) q1) = Inl (RuntimeError 0)"
    if "\<not> canEnqueue q1"
  proof -
    let ?q2 = "sleep_for (next_sleep (tl sched)) q1"
    have "clock ?q2 - start = 1000 + fst (next_sleep sched) + fst (next_sleep (tl sched))"
      by (simp add: c1 assms(3))
    then have "1000 \<le> clock ?q2 - start"
      by simp
    then have "0 < (clock ?q2 - start) div 1000"
      by (simp add: div_greater_zero_iff)
    then have "unat (mTimeout ?q2) < (clock ?q2 - start) div 1000"
      by (simp add: t1)
    with that show ?thesis
      by (simp add: wait_loop_full Let_def t1)
  qed
  show "fst (wait_loop start sched q) =
      (if fst (next_sleep sched) < 500 \<and> canEnqueue q1 then Inr () else Inl (RuntimeError 0))"
    using second by (auto simp add: unfold1)
  show "snd (wait_loop start sched q) = q1" if "fst (next_sleep sched) < 500" "canEnqueue q1"
    using that by (simp add: unfold1)
qed

text \<open>
  Claim C8, as amended. With a timeout of 0 a submission that finds the queue at
  capacity sleeps before anything else. If that first sleep overruns its 500
  milliseconds by less than another 500 and capacity is free when it ends, the
  submission is admitted: exactly one task is handed on, with the identifier drawn,
  and the identifier is returned (in the build without TBB: unless a notifier throws).
  In every other case it fails with the \<open>RuntimeError\<close> of \<open>enqueue\<close>, nothing is handed
  on, and the failure comes no sooner than a whole second after the call began: two
  sleeps of 500 milliseconds, or one that overran.
\<close>

theorem zero_timeout_sleeps_before_failing:
  assumes "mTimeout q = 0" and "\<not> canEnqueue q"
    and "q' = snd (writeGridVec grids archive metadata sched q)"
    and "q1 = sleep_for (next_sleep sched) (drawn q)"
  shows "(\<exists>es. new_events q q' = Slept # es)
    \<and> (fst (writeGridVec grids archive metadata sched q) = Inl (RuntimeError 0))
        = (\<not> (fst (next_sleep sched) < 500 \<and> canEnqueue q1))
    \<and> (fst (next_sleep sched) < 500 \<and> canEnqueue q1 \<longrightarrow>
          dispatched (\<lambda>i. True) (new_events q q') = 1
          \<and> dispatched (\<lambda>i. i = mNextId q) (new_events q q') = 1
          \<and> clock q' = clock q + 500 + fst (next_sleep sched)
          \<and> (useTBB q \<or> calm q \<longrightarrow>
                fst (writeGridVec grids archive metadata sched q) = Inr (mNextId q)))
    \<and> (fst (writeGridVec grids archive metadata sched q) = Inl (RuntimeError 0) \<longrightarrow>
          clock q + 1000 \<le> clock q'
          \<and> dispatched (\<lambda>i. True) (new_events q q') = 0)
    \<and> (fst (writeGridVec grids archive metadata sched q) = Inr i \<longrightarrow> i = mNextId q)"
proof -
  let ?r = "fst (writeGridVec grids archive metadata sched q)"
  let ?t = "task_of grids archive metadata q"
  have z: "mTimeout (drawn q) = 0" and c: "clock q = clock (drawn q)"
    using assms(1) by (simp_all add: drawn_def)
  have full: "\<not> canEnqueue (drawn q)"
    using assms(2) by simp
  note loop = wait_loop_zero_timeout [OF z full c assms(4)]
  have first: "\<exists>es. new_events q q' = Slept # es"
    unfolding assms(3) using assms(2) by (rule writeGridVec_sleeps_first)
  have fails: "(?r = Inl (RuntimeError 0)) = (\<not> (fst (next_sleep sched) < 500 \<and> canEnqueue q1))"
    by (simp add: fst_writeGridVec loop(1) split: option.split)
  have same: "new_events q x = new_events (drawn q) x" "grows q x = grows (drawn q) x" for x
    by (simp_all add: new_events_def grows_def drawn_def)
  have admitted: "dispatched P (new_events q q') = (if P (mNextId q) then 1 else 0)
      \<and> clock q' = clock q + 500 + fst (next_sleep sched)
      \<and> (useTBB q \<or> calm q \<longrightarrow> ?r = Inr (mNextId q))"
    if a: "fst (next_sleep sched) < 500" "canEnqueue q1" for P
  proof -
    have q': "q' = snd (dispatch ?t q1)"
      using assms(3) loop(1) loop(2) [OF a] a by (simp add: writeGridVec_eq)
    have g: "grows q q'"
      unfolding same q' assms(4)
      by (rule grows_trans [OF grows_sleep_for grows_dispatch])
    have "dispatched P (trace q') = dispatched P (trace q) + (if P (mNextId q) then 1 else 0)"
      by (simp add: q' assms(4) dispatch_dispatched sleep_for_dispatched task_of_def drawn_def)
    with dispatched_new_events [OF g, of P]
    have d: "dispatched P (new_events q q') = (if P (mNextId q) then 1 else 0)"
      by simp
    have clk: "clock q' = clock q + 500 + fst (next_sleep sched)"
      by (simp add: q' assms(4) drawn_def)
    have ok: "?r = Inr (mNextId q)" if "useTBB q \<or> calm q"
      using that a by (auto simp add: fst_writeGridVec loop(1) calm_def)
    from d clk ok show ?thesis by simp
  qed
  have failed: "clock q + 1000 \<le> clock q' \<and> dispatched (\<lambda>i. True) (new_events q q') = 0"
    if f: "?r = Inl (RuntimeError 0)"
  proof -
    from writeGridVec_expired(1) [OF f] assms(1) assms(3)
    have "0 < (clock q' - clock q) div 1000" by simp
    then have "1000 \<le> clock q' - clock q"
      by (simp add: div_greater_zero_iff)
    then have late: "clock q + 1000 \<le> clock q'" by simp
    have q': "q' = snd (wait_loop (clock q) sched (drawn q))"
      using assms(3) writeGridVec_failed [OF f] by simp
    have g: "grows (drawn q) q'"
      unfolding q' by (rule grows_wait_loop)
    have "dispatched (\<lambda>i. True) (trace q') = dispatched (\<lambda>i. True) (trace (drawn q))"
      unfolding q' by (rule wait_loop_dispatched)
    with dispatched_new_events [OF g, of "\<lambda>i. True"]
    have "dispatched (\<lambda>i. True) (new_events q q') = 0"
      by (simp add: new_events_def drawn_def)
    with late show ?thesis by simp
  qed
  have ok: "i = mNextId q" if "?r = Inr i"
    using that by (simp add: fst_writeGridVec split: sum.splits if_splits option.splits)
  from first fails admitted [of "\<lambda>i. True"] admitted [of "\<lambda>i. i = mNextId q"] failed ok
  show ?thesis
    by simp
qed

text \<open>
  Capacity 1, a task in flight, timeout 0. When the task does not finish, the
  submission sleeps twice and fails after 1000 milliseconds. When a worker finishes the
  task during the first sleep, the submission is admitted after that sleep.
\<close>

theorem zero_timeout_sleeps_before_failing_witness:
  "mTimeout demo_impatient = 0 \<and> \<not> canEnqueue demo_impatient
   \<and> fst (writeGridVec [8] ok_archive [] [] demo_impatient) = Inl (RuntimeError 0)
   \<and> (\<exists>es. new_events demo_impatient (snd (writeGridVec [8] ok_archive [] [] demo_impatient))
          = Slept # es)
   \<and> clock demo_impatient + 1000 \<le> clock (snd (writeGridVec [8] ok_archive [] [] demo_impatient))
   \<and> canEnqueue (sleep_for (next_sleep [(0, [0])]) (drawn demo_impatient))
   \<and> fst (writeGridVec [8] ok_archive [] [(0, [0])] demo_impatient) = Inr 2
   \<and> dispatched (\<lambda>i. True)
        (new_events demo_impatient (snd (writeGridVec [8] ok_archive [] [(0, [0])] demo_impatient))) = 1"
proof -
  have z: "mTimeout demo_impatient = 0" and full: "\<not> canEnqueue demo_impatient"
    and tbb: "useTBB demo_impatient" and id: "mNextId demo_impatient = 2"
    by (simp_all add: demo_impatient_eq canEnqueue_def)
  have room: "canEnqueue (sleep_for (next_sleep [(0, [0])]) (drawn demo_impatient))"
    by (simp add: demo_impatient_eq drawn_def sleep_for_def next_sleep_def emit_def
        worker_run_def mNumTasks_execute canEnqueue_def)
  have small: "fst (next_sleep [(0, [0])]) < 500"
    by (simp add: next_sleep_def)
  note idle = zero_timeout_sleeps_before_failing [where q = demo_impatient and grids = "[8]"
      and archive = ok_archive and metadata = "[]" and sched = "[]", OF z full refl refl]
  note busy = zero_timeout_sleeps_before_failing [where q = demo_impatient and grids = "[8]"
      and archive = ok_archive and metadata = "[]" and sched = "[(0, [0])]", OF z full refl refl]
  from idle have first: "\<exists>es. new_events demo_impatient
      (snd (writeGridVec [8] ok_archive [] [] demo_impatient)) = Slept # es"
    by (rule conjunct1)
  from idle demo_impatient_submit(1)
  have late: "clock demo_impatient + 1000 \<le> clock (snd (writeGridVec [8] ok_archive [] [] demo_impatient))"
    by blast
  from busy room small
  have one: "dispatched (\<lambda>i. True)
        (new_events demo_impatient (snd (writeGridVec [8] ok_archive [] [(0, [0])] demo_impatient))) = 1"
    by blast
  from busy room small tbb
  have "fst (writeGridVec [8] ok_archive [] [(0, [0])] demo_impatient) = Inr (mNextId demo_impatient)"
    by blast
  then have ok: "fst (writeGridVec [8] ok_archive [] [(0, [0])] demo_impatient) = Inr 2"
    by (simp only: id)
  from z full demo_impatient_submit(1) first late room ok one show ?thesis
    by (intro conjI)
qed

text \<open>
  Against claim C8 as stated: with timeout 0 and the queue at capacity the submission
  sleeps twice, 1000 milliseconds in all, before the error is raised.
\<close>

theorem zero_timeout_blocks_counterexample:
  "mTimeout demo_impatient = 0 \<and> \<not> canEnqueue demo_impatient
   \<and> fst (writeGridVec [8] ok_archive [] [] demo_impatient) = Inl (RuntimeError 0)
   \<and> new_events demo_impatient (snd (writeGridVec [8] ok_archive [] [] demo_impatient))
       = [Slept, Slept]
   \<and> clock (snd (writeGridVec [8] ok_archive [] [] demo_impatient)) - clock demo_impatient = 1000"
  by (simp add: demo_impatient_submit)
     (simp add: demo_impatient_eq canEnqueue_def new_events_def)

end
